theory Spec2Isabelle
  imports Main "HOL-Library.Word" "HOL-Library.AList" "HOL-Library.Multiset"
begin

section \<open>The in-memory todo service of main.go\<close>

text \<open>
  The service keeps a map from ids to todos and a counter \<open>nextID\<close>; five handlers read
  and change them. The handlers are embedded as functions that take the store and the
  world outside the process (the clock and the file system's behaviour) and return the
  response together with the new store and world. The embedding is of the handlers run
  one after another; interleavings of concurrent requests are outside it.
\<close>

subsection \<open>Data\<close>

text \<open>Go's \<open>int\<close> on a 64-bit target: addition wraps, comparison is signed (\<open>sint\<close>).\<close>

type_synonym go_int = "64 word"

record Subtask =
  ID :: go_int
  Title :: string
  Completed :: bool

record Todo =
  ID :: go_int
  Title :: string
  Description :: string
  Completed :: bool
  Images :: "string list"
  Subtasks :: "Subtask list"

text \<open>
  The package-level variables \<open>todos\<close> (a \<open>map[int]*Todo\<close>) and \<open>nextID\<close>. The map is
  an association list with \<open>map_of\<close> as lookup, \<open>AList.update\<close> as \<open>todos[id] = v\<close> and
  \<open>AList.delete\<close> as \<open>delete(todos, id)\<close>. Every \<open>*Todo\<close> is referenced from its map
  entry alone, so writing through the pointer is an update of the entry.
\<close>

record Store =
  todos :: "(go_int \<times> Todo) list"
  nextID :: go_int

definition initial :: Store where
  "initial = \<lparr>todos = [], nextID = 1\<rparr>"

text \<open>
  \<open>multipart.FileHeader\<close> and \<open>multipart.Form\<close>: the text fields and the uploaded files
  of a request, each a map from the field name to the values sent under it.
  \<open>ctx.MultipartForm()\<close> returns the form or an error.
\<close>

record FileHeader =
  Filename :: string
  Content :: string

record Form =
  Value :: "string \<rightharpoonup> string list"
  File :: "string \<rightharpoonup> FileHeader list"

record RequestCtx =
  MultipartForm :: "string + Form"

text \<open>
  What a handler leaves in \<open>ctx\<close>: the status code and the body. \<open>json.Marshal\<close> of a
  \<open>Todo\<close> or a \<open>[]Todo\<close> has no failing case, so the body is the value that is encoded.
  The list of \<open>getTodos\<close> is filled by a loop over a Go map, whose iteration order is
  unspecified, so its body is the multiset of the todos listed.
\<close>

datatype Body = NoBody | ErrorText string | TodoJSON Todo | TodoListJSON "Todo multiset"

record Response =
  StatusCode :: nat
  Body :: Body

definition StatusOK :: nat where "StatusOK = 200"
definition StatusCreated :: nat where "StatusCreated = 201"
definition StatusNoContent :: nat where "StatusNoContent = 204"
definition StatusBadRequest :: nat where "StatusBadRequest = 400"
definition StatusNotFound :: nat where "StatusNotFound = 404"
definition StatusInternalServerError :: nat where "StatusInternalServerError = 500"

definition ctx_Error :: "string \<Rightarrow> nat \<Rightarrow> Response" where
  "ctx_Error msg code = \<lparr>StatusCode = code, Body = ErrorText msg\<rparr>"

subsection \<open>The world outside: clock and file system\<close>

text \<open>
  Each call of \<open>saveUploadedFile\<close> meets one \<open>IOEvent\<close>: what \<open>time.Now().UnixNano()\<close>
  reads, and the error, if any, of \<open>fileHeader.Open()\<close>, of \<open>os.Create\<close> and of
  \<open>io.Copy\<close>. The world is the sequence of these events and the number already used.
  Nothing in the program constrains the clock, so neither does the world. No handler
  reads a saved file back, and the bytes written under \<open>uploads\<close> are not modelled.
\<close>

record IOEvent =
  now :: go_int
  open_err :: "string option"
  create_err :: "string option"
  copy_err :: "string option"

record World =
  tick :: nat
  events :: "nat \<Rightarrow> IOEvent"

subsection \<open>Library functions the handlers call\<close>

text \<open>
  \<open>fmt.Sprintf("%d_%s", n, name)\<close>: the signed decimal numeral of \<open>n\<close>, an underscore,
  the name.
\<close>

definition digit :: "nat \<Rightarrow> char" where
  "digit d = ''0123456789'' ! d"

function natDigits :: "nat \<Rightarrow> string" where
  "natDigits n = (if n < 10 then [digit n] else natDigits (n div 10) @ [digit (n mod 10)])"
  by pat_completeness auto
termination
  by (relation "measure id") auto

declare natDigits.simps [simp del]

definition formatInt :: "int \<Rightarrow> string" where
  "formatInt i = (if i < 0 then CHR ''-'' # natDigits (nat (- i)) else natDigits (nat i))"

definition Sprintf_d_s :: "go_int \<Rightarrow> string \<Rightarrow> string" where
  "Sprintf_d_s n name = formatInt (sint n) @ ''_'' @ name"

text \<open>
  \<open>filepath.Join\<close> on a Unix target joins its non-empty arguments with \<open>/\<close> and returns
  \<open>filepath.Clean\<close> of the result. \<open>Clean\<close> drops empty and \<open>.\<close> elements, lets a \<open>..\<close>
  cancel the element before it (at the root it is dropped, at the start of a relative
  path it is kept), and returns \<open>.\<close> for an empty result. Here the path is split into
  its elements, the elements are cleaned with a stack, and the rest is joined again.
\<close>

fun splitSep :: "string \<Rightarrow> string list" where
  "splitSep [] = [[]]"
| "splitSep (c # cs) =
     (if c = CHR ''/'' then [] # splitSep cs
      else (case splitSep cs of [] \<Rightarrow> [[c]] | e # es \<Rightarrow> (c # e) # es))"

fun joinSep :: "string list \<Rightarrow> string" where
  "joinSep [] = []"
| "joinSep [e] = e"
| "joinSep (e # es) = e @ ''/'' @ joinSep es"

fun cleanElems :: "bool \<Rightarrow> string list \<Rightarrow> string list \<Rightarrow> string list" where
  "cleanElems rooted out [] = rev out"
| "cleanElems rooted out (e # es) =
     (if e = [] \<or> e = ''.'' then cleanElems rooted out es
      else if e = ''..'' then
        (case out of
           [] \<Rightarrow> if rooted then cleanElems rooted [] es else cleanElems rooted [''..''] es
         | prev # below \<Rightarrow>
             if prev = ''..'' then cleanElems rooted (''..'' # out) es
             else cleanElems rooted below es)
      else cleanElems rooted (e # out) es)"

definition Clean :: "string \<Rightarrow> string" where
  "Clean path =
     (if path = [] then ''.''
      else let rooted = (hd path = CHR ''/'');
               body = joinSep (cleanElems rooted [] (splitSep path))
           in if rooted then CHR ''/'' # body
              else if body = [] then ''.'' else body)"

definition Join :: "string \<Rightarrow> string \<Rightarrow> string" where
  "Join a b =
     (if a \<noteq> [] then Clean (a @ ''/'' @ b)
      else if b \<noteq> [] then Clean b
      else [])"

subsection \<open>checkAllSubtasksCompleted\<close>

fun allCompleted :: "Subtask list \<Rightarrow> bool" where
  "allCompleted [] = True"
| "allCompleted (s # ss) = (if \<not> Subtask.Completed s then False else allCompleted ss)"

definition checkAllSubtasksCompleted :: "Subtask list \<Rightarrow> bool" where
  "checkAllSubtasksCompleted subtasks =
     (if length subtasks = 0 then False else allCompleted subtasks)"

subsection \<open>saveUploadedFile and the upload loop\<close>

definition saveUploadedFile :: "FileHeader \<Rightarrow> World \<Rightarrow> (string + string) \<times> World" where
  "saveUploadedFile fileHeader w =
     (let e = events w (tick w);
          w' = w\<lparr>tick := tick w + 1\<rparr>
      in case open_err e of
           Some err \<Rightarrow> (Inl err, w')
         | None \<Rightarrow>
             let filename = Sprintf_d_s (now e) (Filename fileHeader);
                 filePath = Join ''uploads'' filename
             in case create_err e of
                  Some err \<Rightarrow> (Inl err, w')
                | None \<Rightarrow>
                    (case copy_err e of
                       Some err \<Rightarrow> (Inl err, w')
                     | None \<Rightarrow> (Inr filePath, w')))"

text \<open>
  The loop \<open>for _, fileHeader := range files\<close> of both handlers: it returns at the
  first error, else appends the saved path.
\<close>

fun saveFiles :: "FileHeader list \<Rightarrow> string list \<Rightarrow> World \<Rightarrow> (string + string list) \<times> World" where
  "saveFiles [] images w = (Inr images, w)"
| "saveFiles (fileHeader # files) images w =
     (case saveUploadedFile fileHeader w of
        (Inl err, w') \<Rightarrow> (Inl err, w')
      | (Inr savedPath, w') \<Rightarrow> saveFiles files (images @ [savedPath]) w')"

definition uploadImages :: "Form \<Rightarrow> World \<Rightarrow> (string + string list) \<times> World" where
  "uploadImages mForm w =
     (case File mForm ''images'' of
        None \<Rightarrow> (Inr [], w)
      | Some files \<Rightarrow> saveFiles files [] w)"

subsection \<open>Reading the text fields\<close>

text \<open>
  \<open>if vals, ok := mForm.Value[key]; ok && len(vals) > 0 { x = vals[0] }\<close> with \<open>x\<close>
  holding \<open>dflt\<close> before.
\<close>

definition firstValue :: "Form \<Rightarrow> string \<Rightarrow> string \<Rightarrow> string" where
  "firstValue mForm key dflt =
     (case Value mForm key of
        None \<Rightarrow> dflt
      | Some [] \<Rightarrow> dflt
      | Some (v # _) \<Rightarrow> v)"

text \<open>
  \<open>json.Unmarshal\<close> into a \<open>[]Subtask\<close> is a parameter of the handlers: a function from
  the text to the decoded subtasks or an error. It is called on a non-empty text only.
\<close>

type_synonym decoder = "string \<Rightarrow> string + Subtask list"

definition decodeSubtasks :: "decoder \<Rightarrow> string \<Rightarrow> string + Subtask list" where
  "decodeSubtasks unmarshal subtasksStr =
     (if subtasksStr \<noteq> [] then unmarshal subtasksStr else Inr [])"

subsection \<open>The handlers\<close>

definition getTodos :: "Store \<Rightarrow> Response" where
  "getTodos s = \<lparr>StatusCode = StatusOK, Body = TodoListJSON (mset (map snd (todos s)))\<rparr>"

definition getTodo :: "Store \<Rightarrow> go_int \<Rightarrow> Response" where
  "getTodo s tid =
     (case map_of (todos s) tid of
        None \<Rightarrow> ctx_Error ''Todo not found'' StatusNotFound
      | Some todo \<Rightarrow> \<lparr>StatusCode = StatusOK, Body = TodoJSON todo\<rparr>)"

definition createTodo :: "decoder \<Rightarrow> RequestCtx \<Rightarrow> Store \<Rightarrow> World \<Rightarrow> Response \<times> Store \<times> World" where
  "createTodo unmarshal ctx s w =
     (case MultipartForm ctx of
        Inl err \<Rightarrow> (ctx_Error err StatusBadRequest, s, w)
      | Inr mForm \<Rightarrow>
          let title = firstValue mForm ''title'' [];
              description = firstValue mForm ''description'' [];
              subtasksStr = firstValue mForm ''subtasks'' []
          in case decodeSubtasks unmarshal subtasksStr of
               Inl _ \<Rightarrow> (ctx_Error ''Invalid subtasks format'' StatusBadRequest, s, w)
             | Inr subtasks \<Rightarrow>
                 (case uploadImages mForm w of
                    (Inl err, w') \<Rightarrow> (ctx_Error err StatusInternalServerError, s, w')
                  | (Inr images, w') \<Rightarrow>
                      let completed = checkAllSubtasksCompleted subtasks;
                          tid = nextID s;
                          newTodo = \<lparr>ID = tid, Title = title, Description = description,
                                     Completed = completed, Images = images,
                                     Subtasks = subtasks\<rparr>
                      in (\<lparr>StatusCode = StatusCreated, Body = TodoJSON newTodo\<rparr>,
                          \<lparr>todos = AList.update tid newTodo (todos s), nextID = nextID s + 1\<rparr>,
                          w')))"

definition updateTodo :: "decoder \<Rightarrow> RequestCtx \<Rightarrow> go_int \<Rightarrow> Store \<Rightarrow> World \<Rightarrow> Response \<times> Store \<times> World" where
  "updateTodo unmarshal ctx tid s w =
     (case map_of (todos s) tid of
        None \<Rightarrow> (ctx_Error ''Todo not found'' StatusNotFound, s, w)
      | Some todo \<Rightarrow>
          (case MultipartForm ctx of
             Inl err \<Rightarrow> (ctx_Error err StatusBadRequest, s, w)
           | Inr mForm \<Rightarrow>
               let title = firstValue mForm ''title'' (Title todo);
                   description = firstValue mForm ''description'' (Description todo);
                   subtasksStr = firstValue mForm ''subtasks'' []
               in case decodeSubtasks unmarshal subtasksStr of
                    Inl _ \<Rightarrow> (ctx_Error ''Invalid subtasks format'' StatusBadRequest, s, w)
                  | Inr subtasks \<Rightarrow>
                      (case uploadImages mForm w of
                         (Inl err, w') \<Rightarrow> (ctx_Error err StatusInternalServerError, s, w')
                       | (Inr images, w') \<Rightarrow>
                           let todo' = todo\<lparr>Title := title, Description := description,
                                            Subtasks := subtasks, Images := images,
                                            Completed := checkAllSubtasksCompleted subtasks\<rparr>
                           in (\<lparr>StatusCode = StatusOK, Body = TodoJSON todo'\<rparr>,
                               s\<lparr>todos := AList.update tid todo' (todos s)\<rparr>,
                               w'))))"

definition deleteTodo :: "go_int \<Rightarrow> Store \<Rightarrow> Response \<times> Store" where
  "deleteTodo tid s =
     (case map_of (todos s) tid of
        None \<Rightarrow> (ctx_Error ''Todo not found'' StatusNotFound, s)
      | Some _ \<Rightarrow>
          (\<lparr>StatusCode = StatusNoContent, Body = NoBody\<rparr>,
           s\<lparr>todos := AList.delete tid (todos s)\<rparr>))"

subsection \<open>Sequences of requests\<close>

text \<open>
  The requests \<open>requestHandler\<close> passes on, after it has read the method and the id from
  the path, and a run of the service over a list of them.
\<close>

datatype Op =
    GET_todos
  | POST_todos RequestCtx
  | GET_todo go_int
  | PUT_todo go_int RequestCtx
  | DELETE_todo go_int

fun requestHandler :: "decoder \<Rightarrow> Op \<Rightarrow> Store \<Rightarrow> World \<Rightarrow> Response \<times> Store \<times> World" where
  "requestHandler u GET_todos s w = (getTodos s, s, w)"
| "requestHandler u (POST_todos ctx) s w = createTodo u ctx s w"
| "requestHandler u (GET_todo tid) s w = (getTodo s tid, s, w)"
| "requestHandler u (PUT_todo tid ctx) s w = updateTodo u ctx tid s w"
| "requestHandler u (DELETE_todo tid) s w = (case deleteTodo tid s of (r, s') \<Rightarrow> (r, s', w))"

fun run :: "decoder \<Rightarrow> Op list \<Rightarrow> Store \<Rightarrow> World \<Rightarrow> Response list \<times> Store \<times> World" where
  "run u [] s w = ([], s, w)"
| "run u (op # ops) s w =
     (case requestHandler u op s w of
        (r, s', w') \<Rightarrow>
          (case run u ops s' w' of
             (rs, s'', w'') \<Rightarrow> (r # rs, s'', w'')))"

text \<open>The id a response announces as created: only \<open>createTodo\<close> answers 201.\<close>

definition createdID :: "Response \<Rightarrow> go_int option" where
  "createdID r =
     (if StatusCode r = StatusCreated
      then (case Body r of TodoJSON t \<Rightarrow> Some (ID t) | _ \<Rightarrow> None)
      else None)"

definition createdIDs :: "Response list \<Rightarrow> go_int list" where
  "createdIDs rs = List.map_filter createdID rs"

subsection \<open>Auxiliary definitions for the statements\<close>

text \<open>
  The record \<open>createTodo\<close> builds for a decoded request, and the record \<open>updateTodo\<close>
  leaves behind.
\<close>

definition newTodo :: "Form \<Rightarrow> Subtask list \<Rightarrow> string list \<Rightarrow> go_int \<Rightarrow> Todo" where
  "newTodo mForm subtasks images tid =
     \<lparr>ID = tid, Title = firstValue mForm ''title'' [],
      Description = firstValue mForm ''description'' [],
      Completed = checkAllSubtasksCompleted subtasks, Images = images, Subtasks = subtasks\<rparr>"

definition updatedTodo :: "Todo \<Rightarrow> Form \<Rightarrow> Subtask list \<Rightarrow> string list \<Rightarrow> Todo" where
  "updatedTodo todo mForm subtasks images =
     todo\<lparr>Title := firstValue mForm ''title'' (Title todo),
          Description := firstValue mForm ''description'' (Description todo),
          Subtasks := subtasks, Images := images,
          Completed := checkAllSubtasksCompleted subtasks\<rparr>"

text \<open>
  The first error of the three file operations of one \<open>saveUploadedFile\<close> call, the
  path the call returns when there is none, and the paths of a batch: the \<open>k\<close>-th file
  of the batch meets the \<open>k\<close>-th event from the current one.
\<close>

definition ioError :: "IOEvent \<Rightarrow> string option" where
  "ioError e =
     (case open_err e of
        Some err \<Rightarrow> Some err
      | None \<Rightarrow> (case create_err e of Some err \<Rightarrow> Some err | None \<Rightarrow> copy_err e))"

definition savedPath :: "IOEvent \<Rightarrow> FileHeader \<Rightarrow> string" where
  "savedPath e fileHeader = Join ''uploads'' (Sprintf_d_s (now e) (Filename fileHeader))"

definition batchPaths :: "World \<Rightarrow> FileHeader list \<Rightarrow> string list" where
  "batchPaths w files =
     map (\<lambda>k. savedPath (events w (tick w + k)) (files ! k)) [0..<length files]"

text \<open>What can be read back from a reference: the text after its first underscore.\<close>

definition originalName :: "string \<Rightarrow> string" where
  "originalName ref = tl (dropWhile (\<lambda>c. c \<noteq> CHR ''_'') ref)"

text \<open>Every entry of the map holds a todo whose \<open>ID\<close> is its key.\<close>

definition store_inv :: "Store \<Rightarrow> bool" where
  "store_inv s = list_all (\<lambda>(k, t). ID t = k) (todos s)"

subsection \<open>Inputs for the examples\<close>

text \<open>
  A decoder that knows two texts, a world in which the clock advances and no file
  operation fails, and a request with an empty form.
\<close>

definition doneSubtask :: Subtask where
  "doneSubtask = \<lparr>Subtask.ID = 0, Subtask.Title = ''go'', Subtask.Completed = True\<rparr>"

definition openSubtask :: Subtask where
  "openSubtask = \<lparr>Subtask.ID = 0, Subtask.Title = ''wait'', Subtask.Completed = False\<rparr>"

definition exUnmarshal :: decoder where
  "exUnmarshal text =
     (if text = ''[]'' then Inr []
      else if text = ''[done]'' then Inr [doneSubtask]
      else Inl ''invalid character'')"

definition quietWorld :: World where
  "quietWorld =
     \<lparr>tick = 0,
      events = (\<lambda>n. \<lparr>now = 1000 + of_nat n, open_err = None, create_err = None,
                      copy_err = None\<rparr>)\<rparr>"

definition emptyRequest :: RequestCtx where
  "emptyRequest = \<lparr>MultipartForm = Inr \<lparr>Value = Map.empty, File = Map.empty\<rparr>\<rparr>"

definition doneRequest :: RequestCtx where
  "doneRequest =
     \<lparr>MultipartForm = Inr \<lparr>Value = [''title'' \<mapsto> [''Buy milk''], ''subtasks'' \<mapsto> [''[done]'']],
                            File = Map.empty\<rparr>\<rparr>"

text \<open>
  A store that holds one completed todo with an image, requests for the update examples,
  a world in which the second file operation fails, and one whose clock stands still.
\<close>

definition exTodo :: Todo where
  "exTodo =
     \<lparr>ID = 1, Title = ''Buy milk'', Description = ''two litres'', Completed = True,
      Images = [''uploads/7_old.png''], Subtasks = [doneSubtask]\<rparr>"

definition exStore :: Store where
  "exStore = \<lparr>todos = [(1, exTodo)], nextID = 2\<rparr>"

definition blankTitleRequest :: RequestCtx where
  "blankTitleRequest =
     \<lparr>MultipartForm = Inr \<lparr>Value = [''title'' \<mapsto> [[]]], File = Map.empty\<rparr>\<rparr>"


definition twoImagesRequest :: RequestCtx where
  "twoImagesRequest =
     \<lparr>MultipartForm = Inr \<lparr>Value = Map.empty,
        File = [''images'' \<mapsto> [\<lparr>Filename = ''a.png'', Content = ''x''\<rparr>,
                                 \<lparr>Filename = ''a.png'', Content = ''y''\<rparr>]]\<rparr>\<rparr>"

definition failingWorld :: World where
  "failingWorld =
     \<lparr>tick = 0,
      events = (\<lambda>n. \<lparr>now = 1000 + of_nat n, open_err = None,
                      create_err = (if n = 1 then Some ''no space left on device'' else None),
                      copy_err = None\<rparr>)\<rparr>"

definition stillWorld :: World where
  "stillWorld =
     \<lparr>tick = 0,
      events = (\<lambda>n. \<lparr>now = 5, open_err = None, create_err = None, copy_err = None\<rparr>)\<rparr>"

section \<open>Properties\<close>

subsection \<open>How each handler ends\<close>

lemmas status_defs = StatusOK_def StatusCreated_def StatusNoContent_def StatusBadRequest_def
  StatusNotFound_def StatusInternalServerError_def

lemma allCompleted_iff: "allCompleted ss = (\<forall>x\<in>set ss. Subtask.Completed x)"
  by (induction ss) auto

lemma checkAll_iff:
  "checkAllSubtasksCompleted ss = (ss \<noteq> [] \<and> (\<forall>x\<in>set ss. Subtask.Completed x))"
  by (simp add: checkAllSubtasksCompleted_def allCompleted_iff)

lemma createTodo_Created:
  assumes "createTodo u ctx s w = (r, s', w')" and "StatusCode r = StatusCreated"
  shows "\<exists>mForm subtasks images.
           MultipartForm ctx = Inr mForm \<and>
           decodeSubtasks u (firstValue mForm ''subtasks'' []) = Inr subtasks \<and>
           uploadImages mForm w = (Inr images, w') \<and>
           r = \<lparr>StatusCode = StatusCreated,
                Body = TodoJSON (newTodo mForm subtasks images (nextID s))\<rparr> \<and>
           s' = \<lparr>todos = AList.update (nextID s) (newTodo mForm subtasks images (nextID s)) (todos s),
                 nextID = nextID s + 1\<rparr>"
  using assms
  by (auto simp: createTodo_def ctx_Error_def status_defs newTodo_def Let_def
           split: sum.splits prod.splits)

lemma createTodo_not_Created:
  assumes "createTodo u ctx s w = (r, s', w')" and "StatusCode r \<noteq> StatusCreated"
  shows "s' = s \<and> (StatusCode r = StatusBadRequest \<or> StatusCode r = StatusInternalServerError)"
  using assms
  by (auto simp: createTodo_def ctx_Error_def status_defs Let_def
           split: sum.splits prod.splits)

lemma updateTodo_OK:
  assumes "updateTodo u ctx tid s w = (r, s', w')" and "StatusCode r = StatusOK"
  shows "\<exists>todo mForm subtasks images.
           map_of (todos s) tid = Some todo \<and>
           MultipartForm ctx = Inr mForm \<and>
           decodeSubtasks u (firstValue mForm ''subtasks'' []) = Inr subtasks \<and>
           uploadImages mForm w = (Inr images, w') \<and>
           r = \<lparr>StatusCode = StatusOK,
                Body = TodoJSON (updatedTodo todo mForm subtasks images)\<rparr> \<and>
           s' = s\<lparr>todos := AList.update tid (updatedTodo todo mForm subtasks images) (todos s)\<rparr>"
  using assms
  by (auto simp: updateTodo_def ctx_Error_def status_defs updatedTodo_def Let_def
           split: sum.splits prod.splits option.splits)

lemma updateTodo_not_OK:
  assumes "updateTodo u ctx tid s w = (r, s', w')" and "StatusCode r \<noteq> StatusOK"
  shows "s' = s \<and> StatusCode r \<in> {StatusNotFound, StatusBadRequest, StatusInternalServerError}"
  using assms
  by (auto simp: updateTodo_def ctx_Error_def status_defs Let_def
           split: sum.splits prod.splits option.splits)

subsection \<open>Runs of requests\<close>



lemma createdID_ctx_Error [simp]:
  "code \<noteq> StatusCreated \<Longrightarrow> createdID (ctx_Error msg code) = None"
  by (simp add: createdID_def ctx_Error_def)

lemma createdID_getTodos [simp]: "createdID (getTodos s) = None"
  by (simp add: createdID_def getTodos_def status_defs)

lemma createdID_getTodo [simp]: "createdID (getTodo s tid) = None"
  by (simp add: createdID_def getTodo_def ctx_Error_def status_defs split: option.splits)

lemma set_update_subset: "set (AList.update k v al) \<subseteq> insert (k, v) (set al)"
  by (induction al) auto

lemma set_delete_subset: "set (AList.delete k al) \<subseteq> set al"
  by (auto simp: AList.delete_eq)

text \<open>One request: either no id is issued, the counter stays and no key is added, or the
  id \<open>nextID s\<close> is issued, the counter moves on by one and that key is added.\<close>

lemma requestHandler_step:
  assumes "requestHandler u op s w = (r, s', w')"
  shows "(createdID r = None \<and> nextID s' = nextID s \<and> fst ` set (todos s') \<subseteq> fst ` set (todos s))
       \<or> (createdID r = Some (nextID s) \<and> nextID s' = nextID s + 1 \<and>
           fst ` set (todos s') = insert (nextID s) (fst ` set (todos s)))"
proof (cases op)
  case GET_todos
  with assms show ?thesis by auto
next
  case (POST_todos ctx)
  with assms have c: "createTodo u ctx s w = (r, s', w')" by simp
  show ?thesis
  proof (cases "StatusCode r = StatusCreated")
    case True
    from createTodo_Created [OF c True] obtain mForm subtasks images where
      r: "r = \<lparr>StatusCode = StatusCreated, Body = TodoJSON (newTodo mForm subtasks images (nextID s))\<rparr>"
      and s': "s' = \<lparr>todos = AList.update (nextID s) (newTodo mForm subtasks images (nextID s)) (todos s),
                 nextID = nextID s + 1\<rparr>"
      by blast
    have "createdID r = Some (nextID s)"
      by (simp add: r createdID_def newTodo_def)
    moreover have "nextID s' = nextID s + 1"
      by (simp add: s')
    moreover have "fst ` set (todos s') = insert (nextID s) (fst ` set (todos s))"
      by (simp add: s' AList.dom_update)
    ultimately show ?thesis by blast
  next
    case False
    from createTodo_not_Created [OF c False] False show ?thesis
      by (auto simp: createdID_def)
  qed
next
  case (GET_todo tid)
  with assms show ?thesis by auto
next
  case (PUT_todo tid ctx)
  with assms have c: "updateTodo u ctx tid s w = (r, s', w')" by simp
  show ?thesis
  proof (cases "StatusCode r = StatusOK")
    case True
    from updateTodo_OK [OF c True] obtain todo mForm subtasks images where
      t: "map_of (todos s) tid = Some todo"
      and r: "r = \<lparr>StatusCode = StatusOK, Body = TodoJSON (updatedTodo todo mForm subtasks images)\<rparr>"
      and s': "s' = s\<lparr>todos := AList.update tid (updatedTodo todo mForm subtasks images) (todos s)\<rparr>"
      by blast
    from t have "tid \<in> fst ` set (todos s)"
      by (metis domI dom_map_of_conv_image_fst)
    with r s' show ?thesis
      by (auto simp: createdID_def status_defs AList.dom_update)
  next
    case False
    from updateTodo_not_OK [OF c False] show ?thesis
      by (auto simp: createdID_def status_defs)
  qed
next
  case (DELETE_todo tid)
  with assms have d: "deleteTodo tid s = (r, s')" by (auto split: prod.splits)
  then have "createdID r = None" "nextID s' = nextID s"
    "s' = s \<or> todos s' = AList.delete tid (todos s)"
    by (auto simp: deleteTodo_def createdID_def ctx_Error_def status_defs split: option.splits)
  with AList.dom_delete_subset [of tid "todos s"] show ?thesis
    by (elim disjE) simp_all
qed

lemma requestHandler_inv:
  assumes "requestHandler u op s w = (r, s', w')" and "store_inv s"
  shows "store_inv s'"
proof (cases op)
  case GET_todos
  with assms show ?thesis by auto
next
  case (POST_todos ctx)
  with assms have c: "createTodo u ctx s w = (r, s', w')" by simp
  show ?thesis
  proof (cases "StatusCode r = StatusCreated")
    case True
    from createTodo_Created [OF c True] assms(2) show ?thesis
      using set_update_subset
      by (fastforce simp: store_inv_def list_all_iff newTodo_def)
  next
    case False
    from createTodo_not_Created [OF c False] assms(2) show ?thesis by simp
  qed
next
  case (GET_todo tid)
  with assms show ?thesis by auto
next
  case (PUT_todo tid ctx)
  with assms have c: "updateTodo u ctx tid s w = (r, s', w')" by simp
  show ?thesis
  proof (cases "StatusCode r = StatusOK")
    case True
    from updateTodo_OK [OF c True] obtain todo mForm subtasks images where
      t: "map_of (todos s) tid = Some todo"
      and s': "s' = s\<lparr>todos := AList.update tid (updatedTodo todo mForm subtasks images) (todos s)\<rparr>"
      by blast
    from t have "(tid, todo) \<in> set (todos s)" by (rule map_of_SomeD)
    with assms(2) have "ID todo = tid" by (auto simp: store_inv_def list_all_iff)
    then have "ID (updatedTodo todo mForm subtasks images) = tid"
      by (simp add: updatedTodo_def)
    with assms(2) s' show ?thesis
      using set_update_subset [of tid "updatedTodo todo mForm subtasks images" "todos s"]
      by (fastforce simp: store_inv_def list_all_iff)
  next
    case False
    from updateTodo_not_OK [OF c False] assms(2) show ?thesis by simp
  qed
next
  case (DELETE_todo tid)
  with assms show ?thesis
    using set_delete_subset [of tid "todos s"]
    by (fastforce simp: deleteTodo_def store_inv_def list_all_iff split: option.splits)
qed

lemma run_inv:
  "run u ops s w = (rs, s', w') \<Longrightarrow> store_inv s \<Longrightarrow> store_inv s'"
proof (induction ops arbitrary: s w rs s' w')
  case Nil
  then show ?case by simp
next
  case (Cons op ops)
  obtain r s1 w1 where h: "requestHandler u op s w = (r, s1, w1)"
    by (cases "requestHandler u op s w") auto
  obtain rs1 s2 w2 where t: "run u ops s1 w1 = (rs1, s2, w2)"
    by (cases "run u ops s1 w1") auto
  from Cons.prems(1) h t have "s' = s2" by simp
  with Cons.IH [OF t requestHandler_inv [OF h Cons.prems(2)]] show ?case by simp
qed

lemma store_inv_initial: "store_inv initial"
  by (simp add: store_inv_def initial_def)

lemma run_keys:
  "run u ops s w = (rs, s', w') \<Longrightarrow>
     fst ` set (todos s') \<subseteq> fst ` set (todos s) \<union> set (createdIDs rs)"
proof (induction ops arbitrary: s w rs s' w')
  case Nil
  then show ?case by simp
next
  case (Cons op ops)
  obtain r s1 w1 where h: "requestHandler u op s w = (r, s1, w1)"
    by (cases "requestHandler u op s w") auto
  obtain rs1 s2 w2 where t: "run u ops s1 w1 = (rs1, s2, w2)"
    by (cases "run u ops s1 w1") auto
  from Cons.prems h t have e: "s' = s2" "rs = r # rs1" by simp_all
  from Cons.IH [OF t]
  have ih: "fst ` set (todos s2) \<subseteq> fst ` set (todos s1) \<union> set (createdIDs rs1)" .
  have sub1: "\<And>A B C D :: go_int set. A \<subseteq> B \<union> C \<Longrightarrow> B \<subseteq> D \<Longrightarrow> A \<subseteq> D \<union> C"
    by blast
  have sub2: "\<And>(A :: go_int set) B C D x.
      A \<subseteq> B \<union> C \<Longrightarrow> B = insert x D \<Longrightarrow> A \<subseteq> D \<union> insert x C"
    by blast
  from requestHandler_step [OF h] show ?case
  proof
    assume a: "createdID r = None \<and> nextID s1 = nextID s \<and>
      fst ` set (todos s1) \<subseteq> fst ` set (todos s)"
    then have c: "createdIDs (r # rs1) = createdIDs rs1"
      by (simp add: createdIDs_def map_filter_simps)
    from a have "fst ` set (todos s1) \<subseteq> fst ` set (todos s)" by (rule conjunct2 [THEN conjunct2])
    from sub1 [OF ih this] show ?thesis by (simp only: e c)
  next
    assume a: "createdID r = Some (nextID s) \<and> nextID s1 = nextID s + 1 \<and>
           fst ` set (todos s1) = insert (nextID s) (fst ` set (todos s))"
    then have c: "set (createdIDs (r # rs1)) = insert (nextID s) (set (createdIDs rs1))"
      by (simp add: createdIDs_def map_filter_simps)
    from a have "fst ` set (todos s1) = insert (nextID s) (fst ` set (todos s))"
      by (rule conjunct2 [THEN conjunct2])
    from sub2 [OF ih this] show ?thesis by (simp only: e c)
  qed
qed

lemma run_createdIDs:
  "run u ops s w = (rs, s', w') \<Longrightarrow>
     createdIDs rs = map (\<lambda>k. nextID s + of_nat k) [0..<length (createdIDs rs)] \<and>
     nextID s' = nextID s + of_nat (length (createdIDs rs))"
proof (induction ops arbitrary: s w rs s' w')
  case Nil
  then show ?case by (simp add: createdIDs_def)
next
  case (Cons op ops)
  obtain r s1 w1 where h: "requestHandler u op s w = (r, s1, w1)"
    by (cases "requestHandler u op s w") auto
  obtain rs1 s2 w2 where t: "run u ops s1 w1 = (rs1, s2, w2)"
    by (cases "run u ops s1 w1") auto
  from Cons.prems h t have e: "s' = s2" "rs = r # rs1" by simp_all
  let ?m = "length (createdIDs rs1)"
  from Cons.IH [OF t] have ih:
    "createdIDs rs1 = map (\<lambda>k. nextID s1 + of_nat k) [0..<?m]"
    "nextID s2 = nextID s1 + of_nat ?m" by simp_all
  from requestHandler_step [OF h] show ?case
  proof
    assume a: "createdID r = None \<and> nextID s1 = nextID s \<and> fst ` set (todos s1) \<subseteq> fst ` set (todos s)"
    then have "createdIDs rs = createdIDs rs1"
      by (simp add: e createdIDs_def map_filter_simps)
    with a ih e show ?thesis by simp
  next
    assume a: "createdID r = Some (nextID s) \<and> nextID s1 = nextID s + 1 \<and>
           fst ` set (todos s1) = insert (nextID s) (fst ` set (todos s))"
    then have c: "createdIDs rs = nextID s # createdIDs rs1"
      by (simp add: e createdIDs_def map_filter_simps)
    have "map (\<lambda>k. nextID s + of_nat k) [0..<Suc ?m]
            = nextID s # map (\<lambda>k. nextID s1 + of_nat k) [0..<?m]"
      using a by (simp add: map_upt_Suc del: upt_Suc)
    with c ih a e show ?thesis by (simp del: upt_Suc)
  qed
qed


subsection \<open>The ids a run issues\<close>


lemma sint_of_nat_small:
  "n < 2 ^ 63 \<Longrightarrow> sint (of_nat n :: go_int) = int n"
  by (simp add: signed_of_nat signed_take_bit_int_eq_self)

lemma of_nat_inj_small:
  "m < 2 ^ 64 \<Longrightarrow> n < 2 ^ 64 \<Longrightarrow> (of_nat m :: go_int) = of_nat n \<Longrightarrow> m = n"
  by (simp add: word_of_nat_eq_iff take_bit_nat_eq_self)

lemma issued_from_initial:
  assumes "run u ops initial w = (rs, s, w')"
  shows "createdIDs rs = map (\<lambda>k. of_nat (Suc k)) [0..<length (createdIDs rs)]"
    and "nextID s = of_nat (Suc (length (createdIDs rs)))"
  using run_createdIDs [OF assms] by (simp_all add: initial_def)

lemma ids_sorted:
  assumes "run u ops initial w = (rs, s, w')" and "length (createdIDs rs) < 2 ^ 63"
  shows "sorted_wrt (\<lambda>a b. sint a < sint b) (createdIDs rs)"
proof -
  let ?n = "length (createdIDs rs)"
  have "sorted_wrt (\<lambda>a b. sint (of_nat (Suc a) :: go_int) < sint (of_nat (Suc b) :: go_int)) [0..<?n]"
  proof (rule sorted_wrt_mono_rel [OF _ sorted_wrt_upt])
    fix a b assume "a \<in> set [0..<?n]" "b \<in> set [0..<?n]" "a < b"
    with assms(2) have "Suc a < 2 ^ 63" "Suc b < 2 ^ 63" by simp_all
    then have "sint (of_nat (Suc a) :: go_int) = int (Suc a)" "sint (of_nat (Suc b) :: go_int) = int (Suc b)"
      by (simp_all only: sint_of_nat_small)
    with \<open>a < b\<close> show "sint (of_nat (Suc a) :: go_int) < sint (of_nat (Suc b) :: go_int)" by simp
  qed
  then have "sorted_wrt (\<lambda>a b. sint a < sint b) (map (\<lambda>k. of_nat (Suc k) :: go_int) [0..<?n])"
    by (simp only: sorted_wrt_map)
  with issued_from_initial(1) [OF assms(1)] show ?thesis by simp
qed

lemma ids_distinct:
  assumes "run u ops initial w = (rs, s, w')" and "length (createdIDs rs) < 2 ^ 64"
  shows "distinct (createdIDs rs)"
proof -
  let ?n = "length (createdIDs rs)"
  have "inj_on (\<lambda>k. of_nat (Suc k) :: go_int) (set [0..<?n])"
  proof (rule inj_onI)
    fix a b assume "a \<in> set [0..<?n]" "b \<in> set [0..<?n]"
      and eq: "(of_nat (Suc a) :: go_int) = of_nat (Suc b)"
    with assms(2) have "Suc a < 2 ^ 64" "Suc b < 2 ^ 64" by simp_all
    from of_nat_inj_small [OF this eq] show "a = b" by simp
  qed
  then have "distinct (map (\<lambda>k. of_nat (Suc k) :: go_int) [0..<?n])"
    by (simp add: distinct_map)
  with issued_from_initial(1) [OF assms(1)] show ?thesis by simp
qed

lemma createTodo_emptyRequest:
  "createTodo u emptyRequest s w =
     (\<lparr>StatusCode = StatusCreated, Body = TodoJSON (newTodo \<lparr>Value = Map.empty, File = Map.empty\<rparr> [] [] (nextID s))\<rparr>,
      \<lparr>todos = AList.update (nextID s) (newTodo \<lparr>Value = Map.empty, File = Map.empty\<rparr> [] [] (nextID s)) (todos s),
       nextID = nextID s + 1\<rparr>, w)"
  by (simp add: createTodo_def emptyRequest_def firstValue_def decodeSubtasks_def uploadImages_def
      newTodo_def Let_def)

lemma run_replicate_create:
  "run u (replicate n (POST_todos emptyRequest)) s w = (rs, s', w') \<Longrightarrow> length (createdIDs rs) = n"
proof (induction n arbitrary: s rs s' w')
  case 0
  then show ?case by (simp add: createdIDs_def)
next
  case (Suc n)
  let ?s1 = "\<lparr>todos = AList.update (nextID s) (newTodo \<lparr>Value = Map.empty, File = Map.empty\<rparr> [] [] (nextID s)) (todos s),
       nextID = nextID s + 1\<rparr>"
  obtain rs1 s2 w2 where t: "run u (replicate n (POST_todos emptyRequest)) ?s1 w = (rs1, s2, w2)"
    by (cases "run u (replicate n (POST_todos emptyRequest)) ?s1 w") auto
  from Suc.prems t have "rs = \<lparr>StatusCode = StatusCreated, Body = TodoJSON (newTodo \<lparr>Value = Map.empty, File = Map.empty\<rparr> [] [] (nextID s))\<rparr> # rs1"
    by (simp add: createTodo_emptyRequest)
  then have "createdIDs rs = nextID s # createdIDs rs1"
    by (simp add: createdIDs_def map_filter_simps createdID_def newTodo_def)
  with Suc.IH [OF t] show ?case by simp
qed

subsection \<open>Saving a batch of files\<close>

lemma saveUploadedFile_eq:
  "saveUploadedFile fileHeader w =
     ((case ioError (events w (tick w)) of
         Some err \<Rightarrow> Inl err
       | None \<Rightarrow> Inr (savedPath (events w (tick w)) fileHeader)),
      w\<lparr>tick := tick w + 1\<rparr>)"
  by (simp add: saveUploadedFile_def ioError_def savedPath_def Let_def split: option.splits)

lemma batchPaths_Nil: "batchPaths w [] = []"
  by (simp add: batchPaths_def)

lemma batchPaths_Cons:
  "batchPaths w (f # fs) = savedPath (events w (tick w)) f # batchPaths (w\<lparr>tick := tick w + 1\<rparr>) fs"
  by (simp add: batchPaths_def map_upt_Suc del: upt_Suc)

lemma saveFiles_Inr:
  "saveFiles files images w = (Inr res, w') \<Longrightarrow>
     res = images @ batchPaths w files \<and> w' = w\<lparr>tick := tick w + length files\<rparr> \<and>
     (\<forall>k<length files. ioError (events w (tick w + k)) = None)"
proof (induction files arbitrary: images w)
  case Nil
  then show ?case by (simp add: batchPaths_Nil)
next
  case (Cons f fs)
  from Cons.prems have n: "ioError (events w (tick w)) = None"
    by (simp add: saveUploadedFile_eq split: option.splits)
  with Cons.prems have
    "saveFiles fs (images @ [savedPath (events w (tick w)) f]) (w\<lparr>tick := tick w + 1\<rparr>) = (Inr res, w')"
    by (simp add: saveUploadedFile_eq)
  from Cons.IH [OF this] have ih:
    "res = (images @ [savedPath (events w (tick w)) f]) @ batchPaths (w\<lparr>tick := tick w + 1\<rparr>) fs"
    "w' = w\<lparr>tick := tick w + 1 + length fs\<rparr>"
    "\<forall>k<length fs. ioError (events w (tick w + 1 + k)) = None"
    by simp_all
  have "\<forall>k<length (f # fs). ioError (events w (tick w + k)) = None"
  proof (intro allI impI)
    fix k assume "k < length (f # fs)"
    then show "ioError (events w (tick w + k)) = None"
      using n ih(3) by (cases k) simp_all
  qed
  with ih(1,2) show ?case by (simp add: batchPaths_Cons)
qed

lemma saveFiles_Inl:
  "saveFiles files images w = (Inl err, w') \<Longrightarrow>
     \<exists>k<length files. ioError (events w (tick w + k)) = Some err \<and>
        (\<forall>i<k. ioError (events w (tick w + i)) = None) \<and> w' = w\<lparr>tick := tick w + Suc k\<rparr>"
proof (induction files arbitrary: images w)
  case Nil
  then show ?case by simp
next
  case (Cons f fs)
  show ?case
  proof (cases "ioError (events w (tick w))")
    case (Some e)
    with Cons.prems have "e = err" "w' = w\<lparr>tick := tick w + Suc 0\<rparr>"
      by (simp_all add: saveUploadedFile_eq)
    with Some have "ioError (events w (tick w + 0)) = Some err \<and>
        (\<forall>i<0. ioError (events w (tick w + i)) = None) \<and> w' = w\<lparr>tick := tick w + Suc 0\<rparr>"
      by simp
    then show ?thesis by (intro exI [of _ 0]) simp
  next
    case None
    with Cons.prems have
      "saveFiles fs (images @ [savedPath (events w (tick w)) f]) (w\<lparr>tick := tick w + 1\<rparr>) = (Inl err, w')"
      by (simp add: saveUploadedFile_eq)
    from Cons.IH [OF this] obtain k where k: "k < length fs"
      "ioError (events w (tick w + 1 + k)) = Some err"
      "\<forall>i<k. ioError (events w (tick w + 1 + i)) = None"
      "w' = w\<lparr>tick := tick w + 1 + Suc k\<rparr>"
      by auto
    have "\<forall>i<Suc k. ioError (events w (tick w + i)) = None"
    proof (intro allI impI)
      fix i assume "i < Suc k"
      then show "ioError (events w (tick w + i)) = None"
        using None k(3) by (cases i) simp_all
    qed
    with k(1,2,4) have "Suc k < length (f # fs) \<and> ioError (events w (tick w + Suc k)) = Some err \<and>
        (\<forall>i<Suc k. ioError (events w (tick w + i)) = None) \<and> w' = w\<lparr>tick := tick w + Suc (Suc k)\<rparr>"
      by simp
    then show ?thesis by blast
  qed
qed

lemma saveFiles_fails:
  assumes "k < length files" and "ioError (events w (tick w + k)) \<noteq> None"
  shows "\<exists>err w'. saveFiles files images w = (Inl err, w')"
proof (cases "saveFiles files images w")
  case (Pair res w')
  show ?thesis
  proof (cases res)
    case (Inl err)
    with Pair show ?thesis by blast
  next
    case (Inr paths)
    with Pair have "saveFiles files images w = (Inr paths, w')" by simp
    from saveFiles_Inr [OF this] assms have False by simp
    then show ?thesis ..
  qed
qed

lemma uploadImages_Inr:
  "uploadImages mForm w = (Inr images, w') \<Longrightarrow>
     images = (case File mForm ''images'' of None \<Rightarrow> [] | Some files \<Rightarrow> batchPaths w files)"
  by (auto simp: uploadImages_def split: option.splits dest: saveFiles_Inr)

lemma uploadImages_Inl:
  "uploadImages mForm w = (Inl err, w') \<Longrightarrow>
     \<exists>files k. File mForm ''images'' = Some files \<and> k < length files \<and>
        ioError (events w (tick w + k)) = Some err \<and>
        (\<forall>i<k. ioError (events w (tick w + i)) = None)"
  by (auto simp: uploadImages_def split: option.splits dest: saveFiles_Inl)

lemma uploadImages_fails:
  assumes "File mForm ''images'' = Some files" and "k < length files"
    and "ioError (events w (tick w + k)) \<noteq> None"
  shows "\<exists>err w'. uploadImages mForm w = (Inl err, w')"
  using saveFiles_fails [OF assms(2,3)] assms(1) by (simp add: uploadImages_def)

subsection \<open>What a request leaves alone\<close>

lemma createTodo_frame:
  assumes "createTodo u ctx s w = (r, s', w')" and "j \<noteq> nextID s"
  shows "map_of (todos s') j = map_of (todos s) j"
proof (cases "StatusCode r = StatusCreated")
  case True
  from createTodo_Created [OF assms(1) True] assms(2) show ?thesis
    by (auto simp: AList.update_conv')
next
  case False
  from createTodo_not_Created [OF assms(1) False] show ?thesis by simp
qed

lemma updateTodo_frame:
  assumes "updateTodo u ctx i s w = (r, s', w')"
  shows "nextID s' = nextID s" and "i \<noteq> j \<Longrightarrow> map_of (todos s') j = map_of (todos s) j"
proof -
  have "nextID s' = nextID s \<and> (i \<noteq> j \<longrightarrow> map_of (todos s') j = map_of (todos s) j)"
  proof (cases "StatusCode r = StatusOK")
    case True
    from updateTodo_OK [OF assms True] show ?thesis
      by (auto simp: AList.update_conv')
  next
    case False
    from updateTodo_not_OK [OF assms False] show ?thesis by simp
  qed
  then show "nextID s' = nextID s" and "i \<noteq> j \<Longrightarrow> map_of (todos s') j = map_of (todos s) j"
    by simp_all
qed

lemma deleteTodo_frame:
  assumes "deleteTodo i s = (r, s')"
  shows "nextID s' = nextID s" and "i \<noteq> j \<Longrightarrow> map_of (todos s') j = map_of (todos s) j"
  using assms
  by (auto simp: deleteTodo_def AList.delete_conv' split: option.splits)

text \<open>
  In a run from the initial state that has issued fewer than \<open>2 ^ 64 - 1\<close> ids, no todo
  is stored under the id the next create will assign.
\<close>

lemma nextID_fresh:
  assumes "run u ops initial w = (rs, s, w')" and "length (createdIDs rs) < 2 ^ 64 - 1"
  shows "map_of (todos s) (nextID s) = None"
proof -
  let ?n = "length (createdIDs rs)"
  have "nextID s \<notin> fst ` set (todos s)"
  proof
    assume "nextID s \<in> fst ` set (todos s)"
    with run_keys [OF assms(1)] have "nextID s \<in> set (createdIDs rs)"
      by (auto simp: initial_def)
    then obtain k where k: "k < ?n" "createdIDs rs ! k = nextID s"
      by (auto simp: in_set_conv_nth)
    from issued_from_initial(1) [OF assms(1)]
    have "createdIDs rs ! k = map (\<lambda>k. of_nat (Suc k)) [0..<?n] ! k" by simp
    with k(1) have "createdIDs rs ! k = of_nat (Suc k)" by simp
    with k(2) issued_from_initial(2) [OF assms(1)]
    have eq: "(of_nat (Suc k) :: go_int) = of_nat (Suc ?n)" by simp
    from k(1) assms(2) have "Suc k < 2 ^ 64" "Suc ?n < 2 ^ 64" by simp_all
    from of_nat_inj_small [OF this eq] k(1) show False by simp
  qed
  then show ?thesis by (simp add: map_of_eq_None_iff)
qed

text \<open>After a run, a key that was not stored before and was not issued is not stored.\<close>

lemma run_absent:
  assumes "run u ops s w = (rs, s', w')" and "map_of (todos s) tid = None"
    and "tid \<notin> set (createdIDs rs)"
  shows "map_of (todos s') tid = None"
proof -
  from assms(2) have "tid \<notin> fst ` set (todos s)" by (simp add: map_of_eq_None_iff)
  with run_keys [OF assms(1)] assms(3) have "tid \<notin> fst ` set (todos s')" by blast
  then show ?thesis by (simp add: map_of_eq_None_iff)
qed

lemma getTodos_inv:
  assumes "store_inv s" and "map_of (todos s) tid = None"
  shows "\<exists>ts. getTodos s = \<lparr>StatusCode = StatusOK, Body = TodoListJSON ts\<rparr> \<and>
              (\<forall>t\<in>#ts. ID t \<noteq> tid)"
proof -
  have "\<forall>t\<in>#mset (map snd (todos s)). ID t \<noteq> tid"
  proof
    fix t assume "t \<in># mset (map snd (todos s))"
    then obtain k where kt: "(k, t) \<in> set (todos s)" by auto
    with assms(1) have "ID t = k" by (auto simp: store_inv_def list_all_iff)
    moreover from kt have "k \<in> fst ` set (todos s)" by force
    with assms(2) have "k \<noteq> tid" by (auto simp: map_of_eq_None_iff)
    ultimately show "ID t \<noteq> tid" by simp
  qed
  then show ?thesis by (simp add: getTodos_def)
qed

lemma getTodo_found: "map_of (todos s) tid = Some t \<Longrightarrow> StatusCode (getTodo s tid) = StatusOK"
  by (simp add: getTodo_def)

subsection \<open>Ids that come round again\<close>

text \<open>
  A todo that is stored in a state reached from the initial one bears an id that a create
  of the run has issued.
\<close>

lemma stored_was_issued:
  assumes "run u ops initial w = (rs, s, w')" and "map_of (todos s) tid \<noteq> None"
  shows "\<exists>k<length (createdIDs rs). tid = of_nat (Suc k)"
proof -
  from assms(2) have "tid \<in> fst ` set (todos s)" by (simp add: map_of_eq_None_iff)
  with run_keys [OF assms(1)] have "tid \<in> set (createdIDs rs)" by (auto simp: initial_def)
  then obtain k where k: "k < length (createdIDs rs)" "createdIDs rs ! k = tid"
    by (auto simp: in_set_conv_nth)
  from issued_from_initial(1) [OF assms(1)]
  have "createdIDs rs ! k = map (\<lambda>k. of_nat (Suc k)) [0..<length (createdIDs rs)] ! k" by simp
  with k have "tid = of_nat (Suc k)" by simp
  with k(1) show ?thesis by blast
qed

text \<open>While fewer than \<open>2 ^ 64\<close> ids have been issued in all, no stored id is issued again.\<close>

lemma not_reissued:
  assumes "run u ops initial w = (rs, s, wa)" and "map_of (todos s) tid \<noteq> None"
    and "nextID s' = nextID s" and "run u ops' s' wb = (rs', s'', wc)"
    and "length (createdIDs rs) + length (createdIDs rs') < 2 ^ 64"
  shows "tid \<notin> set (createdIDs rs')"
proof
  let ?n = "length (createdIDs rs)"
  let ?m = "length (createdIDs rs')"
  assume "tid \<in> set (createdIDs rs')"
  then obtain k where k: "k < ?m" "createdIDs rs' ! k = tid"
    by (auto simp: in_set_conv_nth)
  from run_createdIDs [OF assms(4)]
  have "createdIDs rs' ! k = map (\<lambda>k. nextID s' + of_nat k) [0..<?m] ! k" by simp
  with k have "tid = nextID s' + of_nat k" by simp
  with assms(3) issued_from_initial(2) [OF assms(1)]
  have a: "tid = of_nat (Suc ?n + k)" by simp
  from stored_was_issued [OF assms(1,2)] obtain j where j: "j < ?n" "tid = of_nat (Suc j)"
    by blast
  from a j(2) have eq: "(of_nat (Suc j) :: go_int) = of_nat (Suc ?n + k)" by simp
  from j(1) k(1) assms(5) have "Suc j < 2 ^ 64" "Suc ?n + k < 2 ^ 64" by simp_all
  from of_nat_inj_small [OF this eq] j(1) show False by simp
qed

text \<open>
  A row of creates with the empty form: every id it issues is stored at the end, with
  the todo that such a create builds.
\<close>

lemma run_replicate_lookup_cases:
  "run u (replicate n (POST_todos emptyRequest)) s w = (rs, s', w') \<Longrightarrow>
     map_of (todos s') k = map_of (todos s) k \<or>
     map_of (todos s') k = Some (newTodo \<lparr>Value = Map.empty, File = Map.empty\<rparr> [] [] k)"
proof (induction n arbitrary: s rs s' w')
  case 0
  then show ?case by simp
next
  case (Suc n)
  let ?t = "newTodo \<lparr>Value = Map.empty, File = Map.empty\<rparr> [] [] (nextID s)"
  let ?s1 = "\<lparr>todos = AList.update (nextID s) ?t (todos s), nextID = nextID s + 1\<rparr>"
  obtain rs1 s2 w2 where t: "run u (replicate n (POST_todos emptyRequest)) ?s1 w = (rs1, s2, w2)"
    by (cases "run u (replicate n (POST_todos emptyRequest)) ?s1 w") auto
  from Suc.prems t have e: "s' = s2" by (simp add: createTodo_emptyRequest)
  have one: "map_of (todos ?s1) k = (if k = nextID s then Some ?t else map_of (todos s) k)"
    by (simp add: AList.update_conv')
  from Suc.IH [OF t, folded e] one show ?case by (cases "k = nextID s") auto
qed

lemma run_replicate_stored:
  "run u (replicate n (POST_todos emptyRequest)) s w = (rs, s', w') \<Longrightarrow> i < n \<Longrightarrow>
     map_of (todos s') (nextID s + of_nat i) =
       Some (newTodo \<lparr>Value = Map.empty, File = Map.empty\<rparr> [] [] (nextID s + of_nat i))"
proof (induction n arbitrary: s rs s' w' i)
  case 0
  then show ?case by simp
next
  case (Suc n)
  let ?t = "newTodo \<lparr>Value = Map.empty, File = Map.empty\<rparr> [] [] (nextID s)"
  let ?s1 = "\<lparr>todos = AList.update (nextID s) ?t (todos s), nextID = nextID s + 1\<rparr>"
  obtain rs1 s2 w2 where t: "run u (replicate n (POST_todos emptyRequest)) ?s1 w = (rs1, s2, w2)"
    by (cases "run u (replicate n (POST_todos emptyRequest)) ?s1 w") auto
  from Suc.prems(1) t have e: "s' = s2" by (simp add: createTodo_emptyRequest)
  show ?case
  proof (cases i)
    case 0
    have "map_of (todos ?s1) (nextID s) = Some ?t" by (simp add: AList.update_conv')
    with run_replicate_lookup_cases [OF t, of "nextID s"] 0 e show ?thesis by auto
  next
    case (Suc i')
    with Suc.prems(2) have "i' < n" by simp
    from Suc.IH [OF t this] Suc e show ?thesis by (simp add: add.assoc)
  qed
qed

lemma createTodo_doneRequest:
  "createTodo exUnmarshal doneRequest s w =
     (\<lparr>StatusCode = StatusCreated,
       Body = TodoJSON (newTodo \<lparr>Value = [''title'' \<mapsto> [''Buy milk''], ''subtasks'' \<mapsto> [''[done]'']],
                                  File = Map.empty\<rparr> [doneSubtask] [] (nextID s))\<rparr>,
      \<lparr>todos = AList.update (nextID s)
         (newTodo \<lparr>Value = [''title'' \<mapsto> [''Buy milk''], ''subtasks'' \<mapsto> [''[done]'']],
                    File = Map.empty\<rparr> [doneSubtask] [] (nextID s)) (todos s),
       nextID = nextID s + 1\<rparr>, w)"
  by (simp add: createTodo_def doneRequest_def firstValue_def decodeSubtasks_def exUnmarshal_def
      uploadImages_def newTodo_def Let_def)

subsection \<open>Decimal numerals and cleaned paths\<close>

lemma digit_in: "d < 10 \<Longrightarrow> digit d \<in> set ''0123456789''"
  unfolding digit_def by (rule nth_mem) simp

lemma digit_inj: "d < 10 \<Longrightarrow> e < 10 \<Longrightarrow> digit d = digit e \<Longrightarrow> d = e"
  unfolding digit_def
  by (subst (asm) nth_eq_iff_index_eq) simp_all

lemma natDigits_nonempty: "natDigits n \<noteq> []"
  by (subst natDigits.simps) simp

lemma natDigits_chars: "c \<in> set (natDigits n) \<Longrightarrow> c \<in> set ''0123456789''"
proof (induction n rule: natDigits.induct)
  case (1 n)
  show ?case
  proof (cases "n < 10")
    case True
    with "1.prems" have "c = digit n" by (subst (asm) natDigits.simps) simp
    with True show ?thesis by (simp only: digit_in)
  next
    case False
    with "1.prems" have "c \<in> set (natDigits (n div 10)) \<or> c = digit (n mod 10)"
      by (subst (asm) natDigits.simps) auto
    then show ?thesis
    proof
      assume "c \<in> set (natDigits (n div 10))"
      with "1.IH" False show ?thesis by blast
    next
      assume "c = digit (n mod 10)"
      moreover have "n mod 10 < 10" by simp
      ultimately show ?thesis by (simp only: digit_in)
    qed
  qed
qed

lemma natDigits_inj: "natDigits n = natDigits m \<Longrightarrow> n = m"
proof (induction n arbitrary: m rule: natDigits.induct)
  case (1 n)
  show ?case
  proof (cases "n < 10")
    case n: True
    show ?thesis
    proof (cases "m < 10")
      case True
      with n "1.prems" have "digit n = digit m"
        by (simp add: natDigits.simps [of n] natDigits.simps [of m])
      from digit_inj [OF n True this] show ?thesis .
    next
      case False
      with n "1.prems" have "[digit n] = natDigits (m div 10) @ [digit (m mod 10)]"
        by (simp add: natDigits.simps [of n] natDigits.simps [of m])
      then have "natDigits (m div 10) = []" by simp
      with natDigits_nonempty show ?thesis by blast
    qed
  next
    case n: False
    show ?thesis
    proof (cases "m < 10")
      case True
      with n "1.prems" have "natDigits (n div 10) @ [digit (n mod 10)] = [digit m]"
        by (simp add: natDigits.simps [of n] natDigits.simps [of m])
      then have "natDigits (n div 10) = []" by simp
      with natDigits_nonempty show ?thesis by blast
    next
      case False
      with n "1.prems" have
        "natDigits (n div 10) @ [digit (n mod 10)] = natDigits (m div 10) @ [digit (m mod 10)]"
        by (simp add: natDigits.simps [of n] natDigits.simps [of m])
      then have a: "natDigits (n div 10) = natDigits (m div 10)"
        and b: "digit (n mod 10) = digit (m mod 10)" by simp_all
      from "1.IH" [OF n a] have "n div 10 = m div 10" .
      moreover have "n mod 10 < 10" "m mod 10 < 10" by simp_all
      from digit_inj [OF this b] have "n mod 10 = m mod 10" .
      ultimately have "n div 10 * 10 + n mod 10 = m div 10 * 10 + m mod 10" by simp
      then show ?thesis by (simp only: div_mult_mod_eq)
    qed
  qed
qed

lemma formatInt_chars:
  assumes "c \<in> set (formatInt i)"
  shows "c \<in> set ''-0123456789''"
proof (cases "i < 0")
  case True
  with assms have "c = CHR ''-'' \<or> c \<in> set (natDigits (nat (- i)))"
    by (simp add: formatInt_def)
  then show ?thesis
  proof
    assume "c = CHR ''-''"
    then show ?thesis by simp
  next
    assume "c \<in> set (natDigits (nat (- i)))"
    from natDigits_chars [OF this] show ?thesis by simp
  qed
next
  case False
  with assms have "c \<in> set (natDigits (nat i))" by (simp add: formatInt_def)
  from natDigits_chars [OF this] show ?thesis by simp
qed

lemma formatInt_inj: "formatInt i = formatInt j \<Longrightarrow> i = j"
proof -
  assume eq: "formatInt i = formatInt j"
  have neg: "\<And>n m. CHR ''-'' # natDigits n \<noteq> natDigits m"
  proof
    fix n m assume "CHR ''-'' # natDigits n = natDigits m"
    then have "CHR ''-'' \<in> set (natDigits m)" by (metis list.set_intros(1))
    from natDigits_chars [OF this] show False by simp
  qed
  show "i = j"
  proof (cases "i < 0")
    case i: True
    show ?thesis
    proof (cases "j < 0")
      case True
      with i eq have "natDigits (nat (- i)) = natDigits (nat (- j))" by (simp add: formatInt_def)
      from natDigits_inj [OF this] i True show ?thesis by simp
    next
      case False
      with i eq neg show ?thesis by (simp add: formatInt_def)
    qed
  next
    case i: False
    show ?thesis
    proof (cases "j < 0")
      case True
      with i eq neg [of "nat (- j)" "nat i"] show ?thesis by (simp add: formatInt_def)
    next
      case False
      with i eq have "natDigits (nat i) = natDigits (nat j)" by (simp add: formatInt_def)
      from natDigits_inj [OF this] i False show ?thesis by simp
    qed
  qed
qed

lemma splitSep_plain: "CHR ''/'' \<notin> set x \<Longrightarrow> splitSep x = [x]"
  by (induction x) auto

lemma splitSep_append:
  "CHR ''/'' \<notin> set a \<Longrightarrow> splitSep (a @ CHR ''/'' # b) = a # splitSep b"
  by (induction a) auto

lemma Join_uploads:
  assumes "CHR ''/'' \<notin> set x" and "x \<noteq> []" and "x \<noteq> ''.''" and "x \<noteq> ''..''"
  shows "Join ''uploads'' x = ''uploads/'' @ x"
proof -
  have "splitSep (''uploads'' @ CHR ''/'' # x) = ''uploads'' # splitSep x"
    by (rule splitSep_append) simp
  with assms(1) have "splitSep (''uploads/'' @ x) = [''uploads'', x]"
    by (simp add: splitSep_plain)
  with assms(2-4) show ?thesis
    by (simp add: Join_def Clean_def)
qed

lemma Sprintf_plain:
  assumes "CHR ''/'' \<notin> set name"
  shows "CHR ''/'' \<notin> set (Sprintf_d_s n name)" and "Sprintf_d_s n name \<noteq> []"
    and "Sprintf_d_s n name \<noteq> ''.''" and "Sprintf_d_s n name \<noteq> ''..''"
proof -
  have u: "CHR ''_'' \<in> set (Sprintf_d_s n name)" by (simp add: Sprintf_d_s_def)
  show "CHR ''/'' \<notin> set (Sprintf_d_s n name)"
  proof
    assume "CHR ''/'' \<in> set (Sprintf_d_s n name)"
    with assms have "CHR ''/'' \<in> set (formatInt (sint n))" by (simp add: Sprintf_d_s_def)
    from formatInt_chars [OF this] show False by simp
  qed
  from u show "Sprintf_d_s n name \<noteq> []" by auto
  from u show "Sprintf_d_s n name \<noteq> ''.''" by auto
  from u show "Sprintf_d_s n name \<noteq> ''..''" by auto
qed

lemma savedPath_plain:
  assumes "CHR ''/'' \<notin> set (Filename fh)"
  shows "savedPath e fh = ''uploads/'' @ formatInt (sint (now e)) @ ''_'' @ Filename fh"
  using Join_uploads [OF Sprintf_plain [OF assms, of "now e"]]
  by (simp add: savedPath_def Sprintf_d_s_def)

section \<open>The claims\<close>

subsection \<open>C1: the completed flag\<close>

text \<open>
  Claim C1. For every subtask sequence the flag \<open>checkAllSubtasksCompleted\<close> computes is
  true exactly when the sequence is non-empty and every subtask in it is completed; an
  empty sequence gives false. Whenever the form of a request is read, its \<open>subtasks\<close>
  field decodes to \<open>subtasks\<close> and its files are saved, a create answers 201 and an
  update of a stored id answers 200, and each stores and returns a todo whose subtasks
  are \<open>subtasks\<close> and whose \<open>Completed\<close> flag is that function of them.
\<close>

theorem completed_derivation:
  "checkAllSubtasksCompleted subtasks =
     (subtasks \<noteq> [] \<and> (\<forall>x\<in>set subtasks. Subtask.Completed x))
   \<and> (MultipartForm ctx = Inr mForm \<and>
       decodeSubtasks u (firstValue mForm ''subtasks'' []) = Inr subtasks \<and>
       uploadImages mForm w = (Inr images, w') \<longrightarrow>
        (\<exists>t s'. createTodo u ctx s w = (\<lparr>StatusCode = StatusCreated, Body = TodoJSON t\<rparr>, s', w') \<and>
           map_of (todos s') (nextID s) = Some t \<and> Subtasks t = subtasks \<and>
           Completed t = (subtasks \<noteq> [] \<and> (\<forall>x\<in>set subtasks. Subtask.Completed x))) \<and>
        (map_of (todos s) tid \<noteq> None \<longrightarrow>
          (\<exists>t s'. updateTodo u ctx tid s w = (\<lparr>StatusCode = StatusOK, Body = TodoJSON t\<rparr>, s', w') \<and>
             map_of (todos s') tid = Some t \<and> Subtasks t = subtasks \<and>
             Completed t = (subtasks \<noteq> [] \<and> (\<forall>x\<in>set subtasks. Subtask.Completed x)))))"
proof (intro conjI impI)
  show "checkAllSubtasksCompleted subtasks =
     (subtasks \<noteq> [] \<and> (\<forall>x\<in>set subtasks. Subtask.Completed x))"
    by (rule checkAll_iff)
next
  assume a: "MultipartForm ctx = Inr mForm \<and>
       decodeSubtasks u (firstValue mForm ''subtasks'' []) = Inr subtasks \<and>
       uploadImages mForm w = (Inr images, w')"
  let ?t = "newTodo mForm subtasks images (nextID s)"
  let ?s' = "\<lparr>todos = AList.update (nextID s) ?t (todos s), nextID = nextID s + 1\<rparr>"
  from a have "createTodo u ctx s w = (\<lparr>StatusCode = StatusCreated, Body = TodoJSON ?t\<rparr>, ?s', w')"
    by (simp add: createTodo_def newTodo_def Let_def)
  moreover have "map_of (todos ?s') (nextID s) = Some ?t" by (simp add: AList.update_conv')
  moreover have "Subtasks ?t = subtasks" by (simp add: newTodo_def)
  moreover have "Completed ?t = (subtasks \<noteq> [] \<and> (\<forall>x\<in>set subtasks. Subtask.Completed x))"
    by (simp add: newTodo_def checkAll_iff)
  ultimately show "\<exists>t s'. createTodo u ctx s w = (\<lparr>StatusCode = StatusCreated, Body = TodoJSON t\<rparr>, s', w') \<and>
           map_of (todos s') (nextID s) = Some t \<and> Subtasks t = subtasks \<and>
           Completed t = (subtasks \<noteq> [] \<and> (\<forall>x\<in>set subtasks. Subtask.Completed x))"
    by blast
next
  assume a: "MultipartForm ctx = Inr mForm \<and>
       decodeSubtasks u (firstValue mForm ''subtasks'' []) = Inr subtasks \<and>
       uploadImages mForm w = (Inr images, w')"
    and "map_of (todos s) tid \<noteq> None"
  then obtain todo where todo: "map_of (todos s) tid = Some todo" by blast
  let ?t = "updatedTodo todo mForm subtasks images"
  let ?s' = "s\<lparr>todos := AList.update tid ?t (todos s)\<rparr>"
  from a todo have "updateTodo u ctx tid s w = (\<lparr>StatusCode = StatusOK, Body = TodoJSON ?t\<rparr>, ?s', w')"
    by (simp add: updateTodo_def updatedTodo_def Let_def)
  moreover have "map_of (todos ?s') tid = Some ?t" by (simp add: AList.update_conv')
  moreover have "Subtasks ?t = subtasks" by (simp add: updatedTodo_def)
  moreover have "Completed ?t = (subtasks \<noteq> [] \<and> (\<forall>x\<in>set subtasks. Subtask.Completed x))"
    by (simp add: updatedTodo_def checkAll_iff)
  ultimately show "\<exists>t s'. updateTodo u ctx tid s w = (\<lparr>StatusCode = StatusOK, Body = TodoJSON t\<rparr>, s', w') \<and>
             map_of (todos s') tid = Some t \<and> Subtasks t = subtasks \<and>
             Completed t = (subtasks \<noteq> [] \<and> (\<forall>x\<in>set subtasks. Subtask.Completed x))"
    by blast
qed

text \<open>
  The three examples of the specification; a create whose one subtask is completed
  returns a completed todo; an update of todo 1, which is stored as completed, with an
  empty form answers 200 with a todo that is not completed, and an update with the one
  completed subtask answers 200 with a completed todo.
\<close>

theorem completed_derivation_witness:
  "checkAllSubtasksCompleted [] = False
   \<and> checkAllSubtasksCompleted [doneSubtask] = True
   \<and> checkAllSubtasksCompleted [doneSubtask, openSubtask] = False
   \<and> (\<exists>t s'. createTodo exUnmarshal doneRequest initial quietWorld
          = (\<lparr>StatusCode = StatusCreated, Body = TodoJSON t\<rparr>, s', quietWorld)
        \<and> Subtasks t = [doneSubtask] \<and> Completed t = True)
   \<and> Completed exTodo = True
   \<and> (\<exists>t s'. updateTodo exUnmarshal emptyRequest 1 exStore quietWorld
          = (\<lparr>StatusCode = StatusOK, Body = TodoJSON t\<rparr>, s', quietWorld)
        \<and> map_of (todos s') 1 = Some t \<and> Subtasks t = [] \<and> Completed t = False)
   \<and> (\<exists>t s'. updateTodo exUnmarshal doneRequest 1 exStore quietWorld
          = (\<lparr>StatusCode = StatusOK, Body = TodoJSON t\<rparr>, s', quietWorld)
        \<and> map_of (todos s') 1 = Some t \<and> Subtasks t = [doneSubtask] \<and> Completed t = True)"
proof -
  let ?done = "\<lparr>Value = [''title'' \<mapsto> [''Buy milk''], ''subtasks'' \<mapsto> [''[done]'']], File = Map.empty\<rparr>"
  let ?empty = "\<lparr>Value = Map.empty, File = Map.empty\<rparr>"
  have e1: "checkAllSubtasksCompleted [] = False"
    using completed_derivation [of "[]"] by simp
  have e2: "checkAllSubtasksCompleted [doneSubtask] = True"
    using completed_derivation [of "[doneSubtask]"] by (simp add: doneSubtask_def)
  have e3: "checkAllSubtasksCompleted [doneSubtask, openSubtask] = False"
    using completed_derivation [of "[doneSubtask, openSubtask]"] by (simp add: openSubtask_def)
  have fd: "MultipartForm doneRequest = Inr ?done" by (simp add: doneRequest_def)
  have fe: "MultipartForm emptyRequest = Inr ?empty" by (simp add: emptyRequest_def)
  have dd: "decodeSubtasks exUnmarshal (firstValue ?done ''subtasks'' []) = Inr [doneSubtask]"
    by (simp add: firstValue_def decodeSubtasks_def exUnmarshal_def)
  have de: "decodeSubtasks exUnmarshal (firstValue ?empty ''subtasks'' []) = Inr []"
    by (simp add: firstValue_def decodeSubtasks_def)
  have ud: "uploadImages ?done quietWorld = (Inr [], quietWorld)" by (simp add: uploadImages_def)
  have ue: "uploadImages ?empty quietWorld = (Inr [], quietWorld)" by (simp add: uploadImages_def)
  have st: "map_of (todos exStore) 1 \<noteq> None" by (simp add: exStore_def)
  have all: "([doneSubtask] \<noteq> [] \<and> (\<forall>x\<in>set [doneSubtask]. Subtask.Completed x)) = True"
    by (simp add: doneSubtask_def)
  have none: "(([] :: Subtask list) \<noteq> [] \<and> (\<forall>x\<in>set []. Subtask.Completed x)) = False"
    by simp
  note thc = completed_derivation [where subtasks = "[doneSubtask]" and ctx = doneRequest
      and mForm = ?done and u = exUnmarshal and w = quietWorld and images = "[]"
      and w' = quietWorld and s = initial, THEN conjunct2, THEN mp,
      OF conjI [OF fd conjI [OF dd ud]]]
  note thd = completed_derivation [where subtasks = "[doneSubtask]" and ctx = doneRequest
      and mForm = ?done and u = exUnmarshal and w = quietWorld and images = "[]"
      and w' = quietWorld and s = exStore and tid = 1, THEN conjunct2, THEN mp,
      OF conjI [OF fd conjI [OF dd ud]]]
  note the = completed_derivation [where subtasks = "[]" and ctx = emptyRequest
      and mForm = ?empty and u = exUnmarshal and w = quietWorld and images = "[]"
      and w' = quietWorld and s = exStore and tid = 1, THEN conjunct2, THEN mp,
      OF conjI [OF fe conjI [OF de ue]]]
  from thc [THEN conjunct1]
  have c: "\<exists>t s'. createTodo exUnmarshal doneRequest initial quietWorld
          = (\<lparr>StatusCode = StatusCreated, Body = TodoJSON t\<rparr>, s', quietWorld)
        \<and> Subtasks t = [doneSubtask] \<and> Completed t = True"
    unfolding all by blast
  from the [THEN conjunct2, THEN mp, OF st]
  have p: "\<exists>t s'. updateTodo exUnmarshal emptyRequest 1 exStore quietWorld
          = (\<lparr>StatusCode = StatusOK, Body = TodoJSON t\<rparr>, s', quietWorld)
        \<and> map_of (todos s') 1 = Some t \<and> Subtasks t = [] \<and> Completed t = False"
    unfolding none by blast
  from thd [THEN conjunct2, THEN mp, OF st]
  have q: "\<exists>t s'. updateTodo exUnmarshal doneRequest 1 exStore quietWorld
          = (\<lparr>StatusCode = StatusOK, Body = TodoJSON t\<rparr>, s', quietWorld)
        \<and> map_of (todos s') 1 = Some t \<and> Subtasks t = [doneSubtask] \<and> Completed t = True"
    unfolding all by blast
  have "Completed exTodo = True" by (simp add: exTodo_def)
  with e1 e2 e3 c p q show ?thesis by blast
qed

subsection \<open>C2: the ids that create returns\<close>

text \<open>
  Claim C2, as amended. In every run of requests from the initial state (creates and
  deletes, and updates and reads as well) the ids returned by the successful creates are
  1, 2, 3, ... in the order of issue, as 64-bit integers. While fewer than \<open>2 ^ 63\<close> ids
  have been issued they are strictly increasing, and while fewer than \<open>2 ^ 64\<close> have
  been issued they are pairwise distinct, whatever was deleted in between. The counter
  is a machine integer with no guard: nothing is claimed beyond these bounds.
\<close>

theorem created_ids_increasing:
  assumes "run u ops initial w = (rs, s, w')"
  shows "createdIDs rs = map (\<lambda>k. of_nat (Suc k)) [0..<length (createdIDs rs)]
       \<and> nextID s = of_nat (Suc (length (createdIDs rs)))
       \<and> (length (createdIDs rs) < 2 ^ 63 \<longrightarrow>
            sorted_wrt (\<lambda>a b. sint a < sint b) (createdIDs rs))
       \<and> (length (createdIDs rs) < 2 ^ 64 \<longrightarrow> distinct (createdIDs rs))"
  using issued_from_initial [OF assms] ids_sorted [OF assms] ids_distinct [OF assms]
  by blast

text \<open>Create, create, delete the first todo, create: the ids are 1, 2 and 3.\<close>

theorem created_ids_increasing_witness:
  "createdIDs (fst (run exUnmarshal
       [POST_todos emptyRequest, POST_todos doneRequest, DELETE_todo 1, POST_todos emptyRequest]
       initial quietWorld)) = [1, 2, 3]
   \<and> sorted_wrt (\<lambda>a b. sint a < sint b) (createdIDs (fst (run exUnmarshal
       [POST_todos emptyRequest, POST_todos doneRequest, DELETE_todo 1, POST_todos emptyRequest]
       initial quietWorld)))
   \<and> distinct (createdIDs (fst (run exUnmarshal
       [POST_todos emptyRequest, POST_todos doneRequest, DELETE_todo 1, POST_todos emptyRequest]
       initial quietWorld)))"
proof -
  let ?ops = "[POST_todos emptyRequest, POST_todos doneRequest, DELETE_todo 1, POST_todos emptyRequest]"
  let ?run = "run exUnmarshal ?ops initial quietWorld"
  have ids: "createdIDs (fst ?run) = [1, 2, 3]"
    by (simp add: createTodo_def emptyRequest_def doneRequest_def firstValue_def
        decodeSubtasks_def exUnmarshal_def uploadImages_def deleteTodo_def initial_def
        createdIDs_def createdID_def map_filter_simps status_defs Let_def)
  have r: "?run = (fst ?run, fst (snd ?run), snd (snd ?run))" by simp
  have len: "length (createdIDs (fst ?run)) < 2 ^ 63" "length (createdIDs (fst ?run)) < 2 ^ 64"
    unfolding ids by simp_all
  from created_ids_increasing [OF r] len
  have "sorted_wrt (\<lambda>a b. sint a < sint b) (createdIDs (fst ?run))"
    and "distinct (createdIDs (fst ?run))"
    by blast+
  with ids show ?thesis by blast
qed

text \<open>
  The claim as stated fails where the counter wraps: of \<open>2 ^ 63\<close> creates in a row the
  last returns \<open>- 2 ^ 63\<close>, which is below the id before it, and of \<open>2 ^ 64 + 1\<close> creates
  the last returns 1 again.
\<close>

theorem ids_wrap_counterexample:
  "\<not> sorted_wrt (\<lambda>a b. sint a < sint b)
       (createdIDs (fst (run exUnmarshal (replicate (2 ^ 63) (POST_todos emptyRequest)) initial quietWorld)))
   \<and> \<not> distinct
       (createdIDs (fst (run exUnmarshal (replicate (2 ^ 64 + 1) (POST_todos emptyRequest)) initial quietWorld)))"
proof (rule conjI)
  let ?run = "run exUnmarshal (replicate (2 ^ 63) (POST_todos emptyRequest)) initial quietWorld"
  let ?ids = "createdIDs (fst ?run)"
  have r: "?run = (fst ?run, fst (snd ?run), snd (snd ?run))"
    by (simp only: prod.collapse)
  have len: "length ?ids = 2 ^ 63" by (rule run_replicate_create [OF r])
  have ids: "?ids = map (\<lambda>k. of_nat (Suc k)) [0..<2 ^ 63]"
    using issued_from_initial(1) [OF r] by (simp only: len)
  have i: "(2 ^ 63 - 2 :: nat) < 2 ^ 63 - 1" by simp
  have j: "(2 ^ 63 - 1 :: nat) < length ?ids" by (simp only: len; simp)
  have a: "?ids ! (2 ^ 63 - 2) = (2 ^ 63 - 1 :: go_int)"
    by (subst ids) simp
  have b: "?ids ! (2 ^ 63 - 1) = (2 ^ 63 :: go_int)"
    by (subst ids) simp
  have n: "\<not> sint (?ids ! (2 ^ 63 - 2)) < sint (?ids ! (2 ^ 63 - 1))"
    unfolding a b by simp
  show "\<not> sorted_wrt (\<lambda>a b. sint a < sint b) ?ids"
  proof
    assume "sorted_wrt (\<lambda>a b. sint a < sint b) ?ids"
    from n sorted_wrt_nth_less [OF this i j] show False by (rule notE)
  qed
next
  let ?run = "run exUnmarshal (replicate (2 ^ 64 + 1) (POST_todos emptyRequest)) initial quietWorld"
  let ?ids = "createdIDs (fst ?run)"
  have r: "?run = (fst ?run, fst (snd ?run), snd (snd ?run))"
    by (simp only: prod.collapse)
  have len: "length ?ids = 2 ^ 64 + 1" by (rule run_replicate_create [OF r])
  have ids: "?ids = map (\<lambda>k. of_nat (Suc k)) [0..<2 ^ 64 + 1]"
    using issued_from_initial(1) [OF r] by (simp only: len)
  have i: "(0 :: nat) < length ?ids" by (simp only: len; simp)
  have j: "(2 ^ 64 :: nat) < length ?ids" by (simp only: len; simp)
  have lt: "(0 :: nat) < 2 ^ 64 + 1 - 0" "(2 ^ 64 :: nat) < 2 ^ 64 + 1 - 0" by simp_all
  have a: "?ids ! 0 = (1 :: go_int)"
    by (subst ids) (simp only: nth_map_upt [OF lt(1)]; simp)
  have b: "?ids ! (2 ^ 64) = (1 :: go_int)"
    by (subst ids) (simp only: nth_map_upt [OF lt(2)]; simp)
  have ne: "(0 :: nat) \<noteq> 2 ^ 64" by simp
  show "\<not> distinct ?ids"
  proof
    assume "distinct ?ids"
    from nth_eq_iff_index_eq [OF this i j] a b ne show False by (simp only: simp_thms)
  qed
qed

subsection \<open>C3: title and description on update\<close>

text \<open>
  Claim C3, as amended. For every existing todo and every successful update, the stored
  title is the first value the form carries under \<open>title\<close> when it carries one, empty
  or not, and the title the todo had before when the form has no \<open>title\<close> field; the
  same holds for the description. A supplied empty string replaces the stored value.
\<close>

theorem update_title_description:
  assumes "updateTodo u ctx tid s w = (r, s', w')" and "StatusCode r = StatusOK"
  shows "\<exists>todo mForm t.
           map_of (todos s) tid = Some todo \<and> MultipartForm ctx = Inr mForm \<and>
           map_of (todos s') tid = Some t \<and> Body r = TodoJSON t \<and>
           Title t = (case Value mForm ''title'' of
                        None \<Rightarrow> Title todo | Some [] \<Rightarrow> Title todo | Some (v # _) \<Rightarrow> v) \<and>
           Description t = (case Value mForm ''description'' of
                        None \<Rightarrow> Description todo | Some [] \<Rightarrow> Description todo
                      | Some (v # _) \<Rightarrow> v)"
proof -
  from updateTodo_OK [OF assms] obtain todo mForm subtasks images where
    t: "map_of (todos s) tid = Some todo" and f: "MultipartForm ctx = Inr mForm"
    and r: "r = \<lparr>StatusCode = StatusOK, Body = TodoJSON (updatedTodo todo mForm subtasks images)\<rparr>"
    and s': "s' = s\<lparr>todos := AList.update tid (updatedTodo todo mForm subtasks images) (todos s)\<rparr>"
    by blast
  let ?t = "updatedTodo todo mForm subtasks images"
  have "map_of (todos s') tid = Some ?t" by (simp add: s' AList.update_conv')
  moreover have "Body r = TodoJSON ?t" by (simp add: r)
  moreover have "Title ?t = (case Value mForm ''title'' of
                        None \<Rightarrow> Title todo | Some [] \<Rightarrow> Title todo | Some (v # _) \<Rightarrow> v)"
    by (simp add: updatedTodo_def firstValue_def)
  moreover have "Description ?t = (case Value mForm ''description'' of
                        None \<Rightarrow> Description todo | Some [] \<Rightarrow> Description todo
                      | Some (v # _) \<Rightarrow> v)"
    by (simp add: updatedTodo_def firstValue_def)
  ultimately show ?thesis using t f by blast
qed

text \<open>An update without a title field keeps the title, one with an empty title blanks it.\<close>

theorem update_title_description_witness:
  "StatusCode (fst (updateTodo exUnmarshal emptyRequest 1 exStore quietWorld)) = StatusOK
   \<and> (\<exists>t. map_of (todos (fst (snd (updateTodo exUnmarshal emptyRequest 1 exStore quietWorld)))) 1 = Some t
          \<and> Title t = ''Buy milk'' \<and> Description t = ''two litres'')"
proof -
  let ?p = "updateTodo exUnmarshal emptyRequest 1 exStore quietWorld"
  have ok: "StatusCode (fst ?p) = StatusOK"
    by (simp add: updateTodo_def exStore_def emptyRequest_def firstValue_def decodeSubtasks_def
        uploadImages_def Let_def)
  have p: "?p = (fst ?p, fst (snd ?p), snd (snd ?p))" by simp
  from update_title_description [OF p ok] obtain todo mForm t where
    a: "map_of (todos exStore) 1 = Some todo" and f: "MultipartForm emptyRequest = Inr mForm"
    and b: "map_of (todos (fst (snd ?p))) 1 = Some t"
    and c: "Title t = (case Value mForm ''title'' of
                        None \<Rightarrow> Title todo | Some [] \<Rightarrow> Title todo | Some (v # _) \<Rightarrow> v)"
    and d: "Description t = (case Value mForm ''description'' of
                        None \<Rightarrow> Description todo | Some [] \<Rightarrow> Description todo
                      | Some (v # _) \<Rightarrow> v)"
    by blast
  from a have todo: "todo = exTodo" by (simp add: exStore_def)
  from f have "mForm = \<lparr>Value = Map.empty, File = Map.empty\<rparr>" by (simp add: emptyRequest_def)
  with c d todo have "Title t = ''Buy milk''" "Description t = ''two litres''"
    by (simp_all add: exTodo_def)
  with b ok show ?thesis by blast
qed

text \<open>
  The claim as stated fails: the stored title is \<open>Buy milk\<close>, the update supplies the
  empty string as the title and succeeds, and the stored title is empty afterwards.
\<close>

theorem update_empty_title_counterexample:
  "map_of (todos exStore) 1 = Some exTodo \<and> Title exTodo = ''Buy milk''
   \<and> StatusCode (fst (updateTodo exUnmarshal blankTitleRequest 1 exStore quietWorld)) = StatusOK
   \<and> (\<exists>t. map_of (todos (fst (snd (updateTodo exUnmarshal blankTitleRequest 1 exStore quietWorld)))) 1
            = Some t \<and> Title t = [] \<and> Title t \<noteq> Title exTodo)"
  by (simp add: updateTodo_def exStore_def exTodo_def blankTitleRequest_def firstValue_def
      decodeSubtasks_def uploadImages_def Let_def)

subsection \<open>C4: images on update\<close>

text \<open>
  Claim C4. After every successful update of an existing todo the stored images are
  exactly the paths the upload loop of this call returned: one path per file sent under
  \<open>images\<close>, in the order sent, the \<open>k\<close>-th being what \<open>saveUploadedFile\<close> returns for
  the \<open>k\<close>-th file. Nothing of the images stored before is kept, and an update without
  an \<open>images\<close> field leaves the list empty.
\<close>

theorem update_replaces_images:
  assumes "updateTodo u ctx tid s w = (r, s', w')" and "StatusCode r = StatusOK"
  shows "\<exists>mForm t.
           MultipartForm ctx = Inr mForm \<and> map_of (todos s') tid = Some t \<and>
           Body r = TodoJSON t \<and> uploadImages mForm w = (Inr (Images t), w') \<and>
           Images t = (case File mForm ''images'' of
                         None \<Rightarrow> []
                       | Some files \<Rightarrow>
                           map (\<lambda>k. savedPath (events w (tick w + k)) (files ! k))
                             [0..<length files])"
proof -
  from updateTodo_OK [OF assms] obtain todo mForm subtasks images where
    f: "MultipartForm ctx = Inr mForm"
    and i: "uploadImages mForm w = (Inr images, w')"
    and r: "r = \<lparr>StatusCode = StatusOK, Body = TodoJSON (updatedTodo todo mForm subtasks images)\<rparr>"
    and s': "s' = s\<lparr>todos := AList.update tid (updatedTodo todo mForm subtasks images) (todos s)\<rparr>"
    by blast
  let ?t = "updatedTodo todo mForm subtasks images"
  have im: "Images ?t = images" by (simp add: updatedTodo_def)
  have "map_of (todos s') tid = Some ?t" by (simp add: s' AList.update_conv')
  moreover have "Body r = TodoJSON ?t" by (simp add: r)
  moreover have "uploadImages mForm w = (Inr (Images ?t), w')" by (simp add: im i)
  moreover have "Images ?t = (case File mForm ''images'' of
                         None \<Rightarrow> []
                       | Some files \<Rightarrow>
                           map (\<lambda>k. savedPath (events w (tick w + k)) (files ! k))
                             [0..<length files])"
    using uploadImages_Inr [OF i]
    by (simp add: updatedTodo_def batchPaths_def split: option.splits)
  ultimately show ?thesis using f by blast
qed

text \<open>
  The stored todo has one image. An update with two files leaves the two new paths, an
  update without files leaves none.
\<close>

theorem update_replaces_images_witness:
  "Images exTodo = [''uploads/7_old.png'']
   \<and> StatusCode (fst (updateTodo exUnmarshal twoImagesRequest 1 exStore quietWorld)) = StatusOK
   \<and> (\<exists>t. map_of (todos (fst (snd (updateTodo exUnmarshal twoImagesRequest 1 exStore quietWorld)))) 1
            = Some t \<and> Images t = [''uploads/1000_a.png'', ''uploads/1001_a.png''])
   \<and> StatusCode (fst (updateTodo exUnmarshal emptyRequest 1 exStore quietWorld)) = StatusOK
   \<and> (\<exists>t. map_of (todos (fst (snd (updateTodo exUnmarshal emptyRequest 1 exStore quietWorld)))) 1
            = Some t \<and> Images t = [])"
proof -
  let ?p = "updateTodo exUnmarshal twoImagesRequest 1 exStore quietWorld"
  let ?q = "updateTodo exUnmarshal emptyRequest 1 exStore quietWorld"
  have okp: "StatusCode (fst ?p) = StatusOK"
    by (simp add: updateTodo_def exStore_def twoImagesRequest_def firstValue_def
        decodeSubtasks_def uploadImages_def saveUploadedFile_def quietWorld_def Let_def)
  have okq: "StatusCode (fst ?q) = StatusOK"
    by (simp add: updateTodo_def exStore_def emptyRequest_def firstValue_def decodeSubtasks_def
        uploadImages_def Let_def)
  have p: "?p = (fst ?p, fst (snd ?p), snd (snd ?p))" by simp
  have q: "?q = (fst ?q, fst (snd ?q), snd (snd ?q))" by simp
  from update_replaces_images [OF p okp] obtain mForm t where
    f: "MultipartForm twoImagesRequest = Inr mForm"
    and t: "map_of (todos (fst (snd ?p))) 1 = Some t"
    and i: "Images t = (case File mForm ''images'' of
                         None \<Rightarrow> []
                       | Some files \<Rightarrow>
                           map (\<lambda>k. savedPath (events quietWorld (tick quietWorld + k)) (files ! k))
                             [0..<length files])"
    by blast
  from f have "mForm = \<lparr>Value = Map.empty,
        File = [''images'' \<mapsto> [\<lparr>Filename = ''a.png'', Content = ''x''\<rparr>,
                                 \<lparr>Filename = ''a.png'', Content = ''y''\<rparr>]]\<rparr>"
    by (simp add: twoImagesRequest_def)
  with i have it: "Images t = [''uploads/1000_a.png'', ''uploads/1001_a.png'']"
    by (simp add: quietWorld_def savedPath_def Join_def Clean_def Sprintf_d_s_def formatInt_def
        natDigits.simps digit_def)
  from update_replaces_images [OF q okq] obtain mForm' t' where
    f': "MultipartForm emptyRequest = Inr mForm'"
    and t': "map_of (todos (fst (snd ?q))) 1 = Some t'"
    and i': "Images t' = (case File mForm' ''images'' of
                         None \<Rightarrow> []
                       | Some files \<Rightarrow>
                           map (\<lambda>k. savedPath (events quietWorld (tick quietWorld + k)) (files ! k))
                             [0..<length files])"
    by blast
  from f' have "mForm' = \<lparr>Value = Map.empty, File = Map.empty\<rparr>" by (simp add: emptyRequest_def)
  with i' have it': "Images t' = []" by simp
  have "Images exTodo = [''uploads/7_old.png'']" by (simp add: exTodo_def)
  with okp okq t it t' it' show ?thesis by blast
qed

subsection \<open>C5: an update with an empty subtasks payload\<close>

text \<open>
  Claim C5. For every existing todo, a successful update whose form has no \<open>subtasks\<close>
  field, or has it with no value or with the empty string as its first value, leaves the
  todo with no subtasks and with \<open>Completed\<close> false, whatever the flag was before.
\<close>

theorem update_empty_subtasks:
  assumes "updateTodo u ctx tid s w = (r, s', w')" and "StatusCode r = StatusOK"
    and "MultipartForm ctx = Inr mForm"
    and "Value mForm ''subtasks'' = None \<or> Value mForm ''subtasks'' = Some [] \<or>
         (\<exists>vs. Value mForm ''subtasks'' = Some ([] # vs))"
  shows "\<exists>t. map_of (todos s') tid = Some t \<and> Body r = TodoJSON t \<and>
              Subtasks t = [] \<and> Completed t = False"
proof -
  from updateTodo_OK [OF assms(1,2)] assms(3) obtain todo subtasks images where
    d: "decodeSubtasks u (firstValue mForm ''subtasks'' []) = Inr subtasks"
    and r: "r = \<lparr>StatusCode = StatusOK, Body = TodoJSON (updatedTodo todo mForm subtasks images)\<rparr>"
    and s': "s' = s\<lparr>todos := AList.update tid (updatedTodo todo mForm subtasks images) (todos s)\<rparr>"
    by auto
  from assms(4) have "firstValue mForm ''subtasks'' [] = []"
    by (auto simp: firstValue_def)
  with d have e: "subtasks = []" by (simp add: decodeSubtasks_def)
  let ?t = "updatedTodo todo mForm subtasks images"
  have "map_of (todos s') tid = Some ?t" by (simp add: s' AList.update_conv')
  moreover have "Body r = TodoJSON ?t" by (simp add: r)
  moreover have "Subtasks ?t = []" by (simp add: updatedTodo_def e)
  moreover have "Completed ?t = False"
    by (simp add: updatedTodo_def e checkAllSubtasksCompleted_def)
  ultimately show ?thesis by blast
qed

text \<open>The stored todo is completed; after an update with an empty form it is not.\<close>

theorem update_empty_subtasks_witness:
  "Completed exTodo = True \<and> Subtasks exTodo = [doneSubtask]
   \<and> StatusCode (fst (updateTodo exUnmarshal emptyRequest 1 exStore quietWorld)) = StatusOK
   \<and> (\<exists>t. map_of (todos (fst (snd (updateTodo exUnmarshal emptyRequest 1 exStore quietWorld)))) 1
            = Some t \<and> Subtasks t = [] \<and> Completed t = False)"
proof -
  let ?q = "updateTodo exUnmarshal emptyRequest 1 exStore quietWorld"
  have ok: "StatusCode (fst ?q) = StatusOK"
    by (simp add: updateTodo_def exStore_def emptyRequest_def firstValue_def decodeSubtasks_def
        uploadImages_def Let_def)
  have q: "?q = (fst ?q, fst (snd ?q), snd (snd ?q))" by simp
  have f: "MultipartForm emptyRequest = Inr \<lparr>Value = Map.empty, File = Map.empty\<rparr>"
    by (simp add: emptyRequest_def)
  have v: "Value \<lparr>Value = Map.empty, File = Map.empty\<rparr> ''subtasks'' = None \<or>
         Value \<lparr>Value = Map.empty, File = Map.empty\<rparr> ''subtasks'' = Some [] \<or>
         (\<exists>vs. Value \<lparr>Value = Map.empty, File = Map.empty\<rparr> ''subtasks'' = Some ([] # vs))"
    by simp
  have "Completed exTodo = True \<and> Subtasks exTodo = [doneSubtask]" by (simp add: exTodo_def)
  with update_empty_subtasks [OF q ok f v] ok show ?thesis by blast
qed

subsection \<open>C6: malformed subtasks\<close>



subsection \<open>C7: a failed upload\<close>

text \<open>
  Claim C7. When a create or an update has read its form and decoded its subtasks, and
  for some file of the \<open>images\<close> batch one of the three file operations fails, the call
  answers 500 with the error of the first file that fails, and the store (the map and
  the counter) is what it was before. Conversely a create or an update that changes the
  store has saved every file of its batch without an error.
\<close>

theorem upload_failure_aborts:
  "(MultipartForm ctx = Inr mForm \<and>
    decodeSubtasks u (firstValue mForm ''subtasks'' []) = Inr subtasks \<and>
    File mForm ''images'' = Some files \<and> k < length files \<and>
    ioError (events w (tick w + k)) \<noteq> None \<longrightarrow>
      (\<exists>err w' i. createTodo u ctx s w = (ctx_Error err StatusInternalServerError, s, w') \<and>
          i \<le> k \<and> ioError (events w (tick w + i)) = Some err \<and>
          (\<forall>j<i. ioError (events w (tick w + j)) = None)) \<and>
      (map_of (todos s) tid \<noteq> None \<longrightarrow>
        (\<exists>err w' i. updateTodo u ctx tid s w = (ctx_Error err StatusInternalServerError, s, w') \<and>
          i \<le> k \<and> ioError (events w (tick w + i)) = Some err \<and>
          (\<forall>j<i. ioError (events w (tick w + j)) = None))))
   \<and> ((createTodo u ctx s w = (r, s', w') \<or> updateTodo u ctx tid s w = (r, s', w')) \<and> s' \<noteq> s \<longrightarrow>
        (\<exists>mForm. MultipartForm ctx = Inr mForm \<and>
           (\<forall>files. File mForm ''images'' = Some files \<longrightarrow>
              (\<forall>k<length files. ioError (events w (tick w + k)) = None))))"
proof (intro conjI impI)
  assume a: "MultipartForm ctx = Inr mForm \<and>
    decodeSubtasks u (firstValue mForm ''subtasks'' []) = Inr subtasks \<and>
    File mForm ''images'' = Some files \<and> k < length files \<and>
    ioError (events w (tick w + k)) \<noteq> None"
  then have f: "MultipartForm ctx = Inr mForm"
    and d: "decodeSubtasks u (firstValue mForm ''subtasks'' []) = Inr subtasks"
    and fs: "File mForm ''images'' = Some files" and k: "k < length files"
    and bad: "ioError (events w (tick w + k)) \<noteq> None"
    by simp_all
  from uploadImages_fails [OF fs k bad] obtain err w' where
    up: "uploadImages mForm w = (Inl err, w')" by blast
  from uploadImages_Inl [OF up] fs obtain i where i: "i < length files"
    "ioError (events w (tick w + i)) = Some err"
    "\<forall>j<i. ioError (events w (tick w + j)) = None"
    by auto
  have ik: "i \<le> k"
  proof (rule ccontr)
    assume "\<not> i \<le> k"
    then have "k < i" by simp
    with i(3) bad show False by simp
  qed
  have c: "createTodo u ctx s w = (ctx_Error err StatusInternalServerError, s, w')"
    by (simp add: createTodo_def f d up Let_def)
  with ik i(2,3)
  show "\<exists>err w' i. createTodo u ctx s w = (ctx_Error err StatusInternalServerError, s, w') \<and>
          i \<le> k \<and> ioError (events w (tick w + i)) = Some err \<and>
          (\<forall>j<i. ioError (events w (tick w + j)) = None)"
    by blast
  assume "map_of (todos s) tid \<noteq> None"
  then have "updateTodo u ctx tid s w = (ctx_Error err StatusInternalServerError, s, w')"
    by (auto simp: updateTodo_def f d up Let_def)
  with ik i(2,3)
  show "\<exists>err w' i. updateTodo u ctx tid s w = (ctx_Error err StatusInternalServerError, s, w') \<and>
          i \<le> k \<and> ioError (events w (tick w + i)) = Some err \<and>
          (\<forall>j<i. ioError (events w (tick w + j)) = None)"
    by blast
next
  assume a: "(createTodo u ctx s w = (r, s', w') \<or> updateTodo u ctx tid s w = (r, s', w')) \<and> s' \<noteq> s"
  then have ne: "s' \<noteq> s" by simp
  have "\<exists>mForm images. MultipartForm ctx = Inr mForm \<and> uploadImages mForm w = (Inr images, w')"
  proof -
    from a consider "createTodo u ctx s w = (r, s', w')" | "updateTodo u ctx tid s w = (r, s', w')"
      by blast
    then show ?thesis
    proof cases
      case 1
      with createTodo_not_Created [OF 1] ne have "StatusCode r = StatusCreated" by blast
      from createTodo_Created [OF 1 this] show ?thesis by blast
    next
      case 2
      with updateTodo_not_OK [OF 2] ne have "StatusCode r = StatusOK" by blast
      from updateTodo_OK [OF 2 this] show ?thesis by blast
    qed
  qed
  then obtain mForm images where f: "MultipartForm ctx = Inr mForm"
    and up: "uploadImages mForm w = (Inr images, w')" by blast
  have "\<forall>files. File mForm ''images'' = Some files \<longrightarrow>
              (\<forall>k<length files. ioError (events w (tick w + k)) = None)"
  proof (intro allI impI)
    fix files k assume fs: "File mForm ''images'' = Some files" and k: "k < length files"
    from up fs have "saveFiles files [] w = (Inr images, w')" by (simp add: uploadImages_def)
    from saveFiles_Inr [OF this] k show "ioError (events w (tick w + k)) = None" by simp
  qed
  with f show "\<exists>mForm. MultipartForm ctx = Inr mForm \<and>
           (\<forall>files. File mForm ''images'' = Some files \<longrightarrow>
              (\<forall>k<length files. ioError (events w (tick w + k)) = None))"
    by blast
qed

text \<open>
  Two files, of which the second cannot be created: create and update answer 500 with
  the error of \<open>os.Create\<close>, and the store stays as it was.
\<close>

theorem upload_failure_aborts_witness:
  "ioError (events failingWorld (tick failingWorld + 1)) = Some ''no space left on device''
   \<and> StatusCode (fst (createTodo exUnmarshal twoImagesRequest exStore failingWorld)) = StatusInternalServerError
   \<and> Body (fst (createTodo exUnmarshal twoImagesRequest exStore failingWorld)) = ErrorText ''no space left on device''
   \<and> fst (snd (createTodo exUnmarshal twoImagesRequest exStore failingWorld)) = exStore
   \<and> StatusCode (fst (updateTodo exUnmarshal twoImagesRequest 1 exStore failingWorld)) = StatusInternalServerError
   \<and> fst (snd (updateTodo exUnmarshal twoImagesRequest 1 exStore failingWorld)) = exStore"
proof -
  let ?files = "[\<lparr>Filename = ''a.png'', Content = ''x''\<rparr>, \<lparr>Filename = ''a.png'', Content = ''y''\<rparr>]"
  let ?form = "\<lparr>Value = Map.empty, File = [''images'' \<mapsto> ?files]\<rparr>"
  have f: "MultipartForm twoImagesRequest = Inr ?form" by (simp add: twoImagesRequest_def)
  have d: "decodeSubtasks exUnmarshal (firstValue ?form ''subtasks'' []) = Inr []"
    by (simp add: decodeSubtasks_def firstValue_def)
  have fs: "File ?form ''images'' = Some ?files" by simp
  have k: "(1 :: nat) < length ?files" by simp
  have e0: "ioError (events failingWorld (tick failingWorld + 0)) = None"
    by (simp add: failingWorld_def ioError_def)
  have e1: "ioError (events failingWorld (tick failingWorld + 1)) = Some ''no space left on device''"
    by (simp add: failingWorld_def ioError_def)
  then have bad: "ioError (events failingWorld (tick failingWorld + 1)) \<noteq> None" by simp
  have m: "map_of (todos exStore) 1 \<noteq> None" by (simp add: exStore_def)
  note th = upload_failure_aborts [of twoImagesRequest ?form exUnmarshal "[]" ?files 1 failingWorld
      exStore 1, THEN conjunct1, rule_format, OF conjI [OF f conjI [OF d conjI [OF fs conjI [OF k bad]]]]]
  from th [THEN conjunct1] obtain err w' i where
    c: "createTodo exUnmarshal twoImagesRequest exStore failingWorld =
          (ctx_Error err StatusInternalServerError, exStore, w')"
    and i: "i \<le> 1" "ioError (events failingWorld (tick failingWorld + i)) = Some err"
    by blast
  from i e0 e1 have err: "err = ''no space left on device''"
    by (cases "i = 0") (auto simp: le_Suc_eq)
  from th [THEN conjunct2, rule_format, OF m] obtain err' w'' where
    p: "updateTodo exUnmarshal twoImagesRequest 1 exStore failingWorld =
          (ctx_Error err' StatusInternalServerError, exStore, w'')"
    by blast
  from c err p e1 show ?thesis by (simp add: ctx_Error_def)
qed

subsection \<open>C8: delete\<close>

text \<open>
  Claim C8, as amended. In every state the service reaches from the initial one,
  \<open>deleteTodo\<close> of an id that is not stored answers 404 and leaves the store as it is.
  For a stored id it answers 204 and removes that entry and no other: the counter and
  every other entry are unchanged, and from then on, through every further run of
  requests, \<open>getTodo\<close> of the id answers 404 and no todo that \<open>getTodos\<close> lists has the
  id, as long as fewer than \<open>2 ^ 64\<close> ids have been issued in all since the start.
\<close>

theorem delete_removes_record:
  assumes "run u ops initial w = (rs, s, wa)"
  shows "(map_of (todos s) tid = None \<longrightarrow>
            deleteTodo tid s = (ctx_Error ''Todo not found'' StatusNotFound, s))
       \<and> (map_of (todos s) tid \<noteq> None \<longrightarrow>
            (\<exists>s'. deleteTodo tid s = (\<lparr>StatusCode = StatusNoContent, Body = NoBody\<rparr>, s') \<and>
               nextID s' = nextID s \<and>
               (\<forall>j. j \<noteq> tid \<longrightarrow> map_of (todos s') j = map_of (todos s) j) \<and>
               (\<forall>ops' wb rs' s'' wc.
                  run u ops' s' wb = (rs', s'', wc) \<and>
                  length (createdIDs rs) + length (createdIDs rs') < 2 ^ 64 \<longrightarrow>
                    getTodo s'' tid = ctx_Error ''Todo not found'' StatusNotFound \<and>
                    (\<exists>ts. getTodos s'' = \<lparr>StatusCode = StatusOK, Body = TodoListJSON ts\<rparr> \<and>
                          (\<forall>t\<in>#ts. ID t \<noteq> tid)))))"
proof (intro conjI impI)
  assume "map_of (todos s) tid = None"
  then show "deleteTodo tid s = (ctx_Error ''Todo not found'' StatusNotFound, s)"
    by (simp add: deleteTodo_def)
next
  assume stored: "map_of (todos s) tid \<noteq> None"
  let ?s' = "s\<lparr>todos := AList.delete tid (todos s)\<rparr>"
  have d: "deleteTodo tid s = (\<lparr>StatusCode = StatusNoContent, Body = NoBody\<rparr>, ?s')"
    using stored by (auto simp: deleteTodo_def)
  have inv: "store_inv s" by (rule run_inv [OF assms store_inv_initial])
  have inv': "store_inv ?s'"
    using inv set_delete_subset [of tid "todos s"] by (auto simp: store_inv_def list_all_iff)
  have gone: "map_of (todos ?s') tid = None" by (simp add: AList.delete_conv')
  have nx: "nextID ?s' = nextID s" by simp
  have later: "\<forall>ops' wb rs' s'' wc.
                  run u ops' ?s' wb = (rs', s'', wc) \<and>
                  length (createdIDs rs) + length (createdIDs rs') < 2 ^ 64 \<longrightarrow>
                    getTodo s'' tid = ctx_Error ''Todo not found'' StatusNotFound \<and>
                    (\<exists>ts. getTodos s'' = \<lparr>StatusCode = StatusOK, Body = TodoListJSON ts\<rparr> \<and>
                          (\<forall>t\<in>#ts. ID t \<noteq> tid))"
  proof (intro allI impI)
    fix ops' wb rs' s'' wc
    assume a: "run u ops' ?s' wb = (rs', s'', wc) \<and>
                  length (createdIDs rs) + length (createdIDs rs') < 2 ^ 64"
    then have r: "run u ops' ?s' wb = (rs', s'', wc)"
      and b: "length (createdIDs rs) + length (createdIDs rs') < 2 ^ 64"
      by blast+
    have n: "tid \<notin> set (createdIDs rs')"
      by (rule not_reissued [OF assms stored nx r b])
    have none: "map_of (todos s'') tid = None" by (rule run_absent [OF r gone n])
    have "getTodo s'' tid = ctx_Error ''Todo not found'' StatusNotFound"
      by (simp add: getTodo_def none)
    moreover have "\<exists>ts. getTodos s'' = \<lparr>StatusCode = StatusOK, Body = TodoListJSON ts\<rparr> \<and>
                          (\<forall>t\<in>#ts. ID t \<noteq> tid)"
      by (rule getTodos_inv [OF run_inv [OF r inv'] none])
    ultimately show "getTodo s'' tid = ctx_Error ''Todo not found'' StatusNotFound \<and>
                    (\<exists>ts. getTodos s'' = \<lparr>StatusCode = StatusOK, Body = TodoListJSON ts\<rparr> \<and>
                          (\<forall>t\<in>#ts. ID t \<noteq> tid))"
      by (rule conjI)
  qed
  have "\<forall>j. j \<noteq> tid \<longrightarrow> map_of (todos ?s') j = map_of (todos s) j"
    by (simp add: AList.delete_conv')
  with nx show "\<exists>s'. deleteTodo tid s = (\<lparr>StatusCode = StatusNoContent, Body = NoBody\<rparr>, s') \<and>
               nextID s' = nextID s \<and>
               (\<forall>j. j \<noteq> tid \<longrightarrow> map_of (todos s') j = map_of (todos s) j) \<and>
               (\<forall>ops' wb rs' s'' wc.
                  run u ops' s' wb = (rs', s'', wc) \<and>
                  length (createdIDs rs) + length (createdIDs rs') < 2 ^ 64 \<longrightarrow>
                    getTodo s'' tid = ctx_Error ''Todo not found'' StatusNotFound \<and>
                    (\<exists>ts. getTodos s'' = \<lparr>StatusCode = StatusOK, Body = TodoListJSON ts\<rparr> \<and>
                          (\<forall>t\<in>#ts. ID t \<noteq> tid)))"
    using d later by blast
qed

text \<open>
  Two todos are created and the first is deleted: it is gone at once, it is still gone
  after a further create and an update of the second todo, when the todos listed are
  those with the ids 2 and 3, and a second delete of the same id answers 404.
\<close>

theorem delete_removes_record_witness:
  "map_of (todos (fst (snd (run exUnmarshal [POST_todos doneRequest, POST_todos emptyRequest]
        initial quietWorld)))) 1 \<noteq> None
   \<and> StatusCode (fst (deleteTodo 1 (fst (snd (run exUnmarshal
        [POST_todos doneRequest, POST_todos emptyRequest] initial quietWorld))))) = StatusNoContent
   \<and> getTodo (snd (deleteTodo 1 (fst (snd (run exUnmarshal
        [POST_todos doneRequest, POST_todos emptyRequest] initial quietWorld))))) 1
        = ctx_Error ''Todo not found'' StatusNotFound
   \<and> getTodo (fst (snd (run exUnmarshal [POST_todos emptyRequest, PUT_todo 2 doneRequest]
        (snd (deleteTodo 1 (fst (snd (run exUnmarshal
           [POST_todos doneRequest, POST_todos emptyRequest] initial quietWorld)))))
        quietWorld))) 1 = ctx_Error ''Todo not found'' StatusNotFound
   \<and> (\<exists>ts. Body (getTodos (fst (snd (run exUnmarshal
        [POST_todos emptyRequest, PUT_todo 2 doneRequest]
        (snd (deleteTodo 1 (fst (snd (run exUnmarshal
           [POST_todos doneRequest, POST_todos emptyRequest] initial quietWorld)))))
        quietWorld)))) = TodoListJSON ts \<and> image_mset (\<lambda>t. ID t) ts = {#2, 3#})
   \<and> deleteTodo 1 (snd (deleteTodo 1 (fst (snd (run exUnmarshal
        [POST_todos doneRequest, POST_todos emptyRequest] initial quietWorld)))))
      = (ctx_Error ''Todo not found'' StatusNotFound,
         snd (deleteTodo 1 (fst (snd (run exUnmarshal
        [POST_todos doneRequest, POST_todos emptyRequest] initial quietWorld)))))"
proof -
  let ?run = "run exUnmarshal [POST_todos doneRequest, POST_todos emptyRequest] initial quietWorld"
  let ?s = "fst (snd ?run)"
  let ?d = "deleteTodo 1 ?s"
  let ?run2 = "run exUnmarshal [POST_todos emptyRequest, PUT_todo 2 doneRequest] (snd ?d) quietWorld"
  note ev = createTodo_def updateTodo_def deleteTodo_def getTodos_def doneRequest_def
    emptyRequest_def firstValue_def decodeSubtasks_def exUnmarshal_def uploadImages_def
    initial_def Let_def
  have r: "?run = (fst ?run, ?s, snd (snd ?run))" by simp
  have r2: "?run2 = (fst ?run2, fst (snd ?run2), snd (snd ?run2))" by simp
  have m: "map_of (todos ?s) 1 \<noteq> None" by (simp add: ev)
  have n0: "length (createdIDs (fst ?run)) + length (createdIDs []) < 2 ^ 64"
    by (simp add: ev createdIDs_def createdID_def map_filter_simps status_defs)
  have n2: "length (createdIDs (fst ?run)) + length (createdIDs (fst ?run2)) < 2 ^ 64"
    by (simp add: ev createdIDs_def createdID_def map_filter_simps status_defs)
  have lst: "\<exists>ts. Body (getTodos (fst (snd ?run2))) = TodoListJSON ts \<and>
      image_mset (\<lambda>t. ID t) ts = {#2, 3#}"
    by (simp add: ev)
  from delete_removes_record [OF r, of 1] m obtain s' where
    d: "?d = (\<lparr>StatusCode = StatusNoContent, Body = NoBody\<rparr>, s')"
    and later: "\<forall>ops' wb rs' s'' wc.
                  run exUnmarshal ops' s' wb = (rs', s'', wc) \<and>
                  length (createdIDs (fst ?run)) + length (createdIDs rs') < 2 ^ 64 \<longrightarrow>
                    getTodo s'' 1 = ctx_Error ''Todo not found'' StatusNotFound \<and>
                    (\<exists>ts. getTodos s'' = \<lparr>StatusCode = StatusOK, Body = TodoListJSON ts\<rparr> \<and>
                          (\<forall>t\<in>#ts. ID t \<noteq> 1))"
    by blast
  from d have s': "s' = snd ?d" by simp
  from n0 have "run exUnmarshal [] s' quietWorld = ([], s', quietWorld) \<and>
      length (createdIDs (fst ?run)) + length (createdIDs []) < 2 ^ 64"
    by simp
  with later have g0: "getTodo s' 1 = ctx_Error ''Todo not found'' StatusNotFound" by blast
  from r2 n2 have "run exUnmarshal [POST_todos emptyRequest, PUT_todo 2 doneRequest] s' quietWorld
      = (fst ?run2, fst (snd ?run2), snd (snd ?run2)) \<and>
      length (createdIDs (fst ?run)) + length (createdIDs (fst ?run2)) < 2 ^ 64"
    by (simp only: s'; simp)
  with later have g2: "getTodo (fst (snd ?run2)) 1 = ctx_Error ''Todo not found'' StatusNotFound"
    by blast
  have "map_of (todos s') 1 = None" using g0 by (simp add: getTodo_def ctx_Error_def split: option.splits)
  then have dd: "deleteTodo 1 s' = (ctx_Error ''Todo not found'' StatusNotFound, s')"
    by (simp add: deleteTodo_def)
  from d have "StatusCode (fst ?d) = StatusNoContent" by simp
  with m g0 g2 lst dd show ?thesis by (simp only: s' simp_thms)
qed

text \<open>
  The claim as stated fails where the counter wraps. Todo 1 is created and deleted; of
  the \<open>2 ^ 64\<close> creates that follow the last is issued the id 1 again, and \<open>getTodo\<close> of 1
  answers 200.
\<close>

theorem delete_reissued_counterexample:
  "StatusCode (fst (deleteTodo 1 (fst (snd (run exUnmarshal [POST_todos emptyRequest]
        initial quietWorld))))) = StatusNoContent
   \<and> StatusCode (getTodo (fst (snd (run exUnmarshal (replicate (2 ^ 64) (POST_todos emptyRequest))
        (snd (deleteTodo 1 (fst (snd (run exUnmarshal [POST_todos emptyRequest]
           initial quietWorld)))))
        quietWorld))) 1) = StatusOK"
proof -
  let ?d = "deleteTodo 1 (fst (snd (run exUnmarshal [POST_todos emptyRequest] initial quietWorld)))"
  have d: "?d = (\<lparr>StatusCode = StatusNoContent, Body = NoBody\<rparr>, \<lparr>todos = [], nextID = 2\<rparr>)"
    by (simp add: createTodo_emptyRequest deleteTodo_def initial_def)
  define big where
    "big = run exUnmarshal (replicate (2 ^ 64) (POST_todos emptyRequest)) \<lparr>todos = [], nextID = 2\<rparr> quietWorld"
  have r: "run exUnmarshal (replicate (2 ^ 64) (POST_todos emptyRequest)) \<lparr>todos = [], nextID = 2\<rparr> quietWorld
      = (fst big, fst (snd big), snd (snd big))"
    by (simp only: big_def prod.collapse)
  have i: "(2 ^ 64 - 1 :: nat) < 2 ^ 64" by simp
  have k: "nextID \<lparr>todos = [], nextID = 2\<rparr> + of_nat (2 ^ 64 - 1) = (1 :: go_int)" by simp
  from run_replicate_stored [OF r i] have "\<exists>t. map_of (todos (fst (snd big))) 1 = Some t"
    by (simp only: k) blast
  then obtain t where "map_of (todos (fst (snd big))) 1 = Some t" ..
  from getTodo_found [OF this] have g: "StatusCode (getTodo (fst (snd big)) 1) = StatusOK" .
  from d have "StatusCode (fst ?d) = StatusNoContent" by simp
  moreover from d have "snd ?d = \<lparr>todos = [], nextID = 2\<rparr>" by simp
  ultimately show ?thesis using g by (simp only: big_def simp_thms)
qed

subsection \<open>C10: the frame of create, update and delete\<close>

text \<open>
  Claim C10, as amended. An update or a delete of \<open>i\<close> leaves the counter and the entry
  of every id other than \<open>i\<close> as they were. A create writes the entry under the id it
  assigns, \<open>nextID\<close>, and leaves the entry of every other id as it was; in a state
  reached from the initial one while fewer than \<open>2 ^ 64 - 1\<close> ids have been issued
  nothing is stored under \<open>nextID\<close>, so there a create changes no stored todo at all.
\<close>

theorem frame_other_records:
  "(createTodo u ctx s w = (r, s', w') \<and> j \<noteq> nextID s \<longrightarrow>
      map_of (todos s') j = map_of (todos s) j)
   \<and> (updateTodo u ctx i s w = (r, s', w') \<and> i \<noteq> j \<longrightarrow>
      map_of (todos s') j = map_of (todos s) j \<and> nextID s' = nextID s)
   \<and> (deleteTodo i s = (r, s') \<and> i \<noteq> j \<longrightarrow>
      map_of (todos s') j = map_of (todos s) j \<and> nextID s' = nextID s)
   \<and> (run u ops initial wi = (rs, s, w) \<and> length (createdIDs rs) < 2 ^ 64 - 1 \<longrightarrow>
      map_of (todos s) (nextID s) = None)"
  using createTodo_frame [of u ctx s w r s' w' j] updateTodo_frame [of u ctx i s w r s' w']
    deleteTodo_frame [of i s r s'] nextID_fresh [of u ops wi rs s w]
  by blast

text \<open>
  The store holds todo 1 and the counter is 2: a create, an update of todo 2 and a delete
  of todo 2 leave todo 1 as it is.
\<close>

theorem frame_other_records_witness:
  "map_of (todos (fst (snd (createTodo exUnmarshal doneRequest exStore quietWorld)))) 1 = Some exTodo
   \<and> map_of (todos (fst (snd (updateTodo exUnmarshal doneRequest 2
        (fst (snd (createTodo exUnmarshal doneRequest exStore quietWorld))) quietWorld)))) 1 = Some exTodo
   \<and> map_of (todos (snd (deleteTodo 2
        (fst (snd (createTodo exUnmarshal doneRequest exStore quietWorld)))))) 1 = Some exTodo
   \<and> map_of (todos (fst (snd (run exUnmarshal [POST_todos doneRequest] initial quietWorld)))) 2 = None"
proof -
  let ?c = "createTodo exUnmarshal doneRequest exStore quietWorld"
  let ?s1 = "fst (snd ?c)"
  let ?p = "updateTodo exUnmarshal doneRequest 2 ?s1 quietWorld"
  let ?d = "deleteTodo 2 ?s1"
  let ?run = "run exUnmarshal [POST_todos doneRequest] initial quietWorld"
  note ev = createTodo_def doneRequest_def firstValue_def decodeSubtasks_def exUnmarshal_def
    uploadImages_def initial_def Let_def
  have c: "?c = (fst ?c, ?s1, snd (snd ?c))" by simp
  have p: "?p = (fst ?p, fst (snd ?p), snd (snd ?p))" by simp
  have d: "?d = (fst ?d, snd ?d)" by simp
  have rn: "?run = (fst ?run, fst (snd ?run), snd (snd ?run))" by simp
  have n: "(1 :: go_int) \<noteq> nextID exStore" "(2 :: go_int) \<noteq> 1" by (simp_all add: exStore_def)
  have e: "map_of (todos exStore) 1 = Some exTodo" by (simp add: exStore_def)
  have len: "length (createdIDs (fst ?run)) < 2 ^ 64 - 1"
    by (simp add: ev createdIDs_def createdID_def map_filter_simps)
  have nx: "nextID (fst (snd ?run)) = 2" by (simp add: ev)
  from frame_other_records [where u = exUnmarshal and ctx = doneRequest and s = exStore
      and w = quietWorld and r = "fst ?c" and s' = ?s1 and w' = "snd (snd ?c)" and j = 1,
      THEN conjunct1] c n(1) e
  have a1: "map_of (todos ?s1) 1 = Some exTodo" by simp
  from frame_other_records [where u = exUnmarshal and ctx = doneRequest and s = ?s1
      and w = quietWorld and r = "fst ?p" and s' = "fst (snd ?p)" and w' = "snd (snd ?p)"
      and j = 1 and i = 2, THEN conjunct2, THEN conjunct1] p n(2) a1
  have a2: "map_of (todos (fst (snd ?p))) 1 = Some exTodo" by simp
  from frame_other_records [where s = ?s1 and r = "fst ?d" and s' = "snd ?d"
      and j = 1 and i = 2, THEN conjunct2, THEN conjunct2, THEN conjunct1] d n(2) a1
  have a3: "map_of (todos (snd ?d)) 1 = Some exTodo" by simp
  from frame_other_records [where u = exUnmarshal and ops = "[POST_todos doneRequest]"
      and wi = quietWorld and rs = "fst ?run" and s = "fst (snd ?run)" and w = "snd (snd ?run)",
      THEN conjunct2, THEN conjunct2, THEN conjunct2] rn len nx
  have a4: "map_of (todos (fst (snd ?run))) 2 = None" by simp
  from a1 a2 a3 a4 show ?thesis by blast
qed

text \<open>
  The claim as stated fails where the counter wraps. After \<open>2 ^ 64\<close> creates with an empty
  form todo 1 is still stored and the counter is at 1 again: the next create, with the
  title \<open>Buy milk\<close>, writes over it.
\<close>

theorem create_overwrites_counterexample:
  "map_of (todos (fst (snd (run exUnmarshal (replicate (2 ^ 64) (POST_todos emptyRequest))
        initial quietWorld)))) 1
     = Some \<lparr>ID = 1, Title = [], Description = [], Completed = False, Images = [], Subtasks = []\<rparr>
   \<and> map_of (todos (fst (snd (createTodo exUnmarshal doneRequest
        (fst (snd (run exUnmarshal (replicate (2 ^ 64) (POST_todos emptyRequest))
           initial quietWorld))) quietWorld)))) 1
     = Some \<lparr>ID = 1, Title = ''Buy milk'', Description = [], Completed = True, Images = [],
             Subtasks = [doneSubtask]\<rparr>"
proof -
  define big where
    "big = run exUnmarshal (replicate (2 ^ 64) (POST_todos emptyRequest)) initial quietWorld"
  have r: "run exUnmarshal (replicate (2 ^ 64) (POST_todos emptyRequest)) initial quietWorld
      = (fst big, fst (snd big), snd (snd big))"
    by (simp only: big_def prod.collapse)
  have len: "length (createdIDs (fst big)) = 2 ^ 64" by (rule run_replicate_create [OF r])
  from issued_from_initial(2) [OF r] have nx: "nextID (fst (snd big)) = 1"
    by (simp only: len) simp
  have i: "(0 :: nat) < 2 ^ 64" by simp
  from run_replicate_stored [OF r i]
  have before: "map_of (todos (fst (snd big))) 1
     = Some \<lparr>ID = 1, Title = [], Description = [], Completed = False, Images = [], Subtasks = []\<rparr>"
    by (simp add: initial_def newTodo_def firstValue_def checkAllSubtasksCompleted_def)
  have after: "map_of (todos (fst (snd (createTodo exUnmarshal doneRequest (fst (snd big)) quietWorld)))) 1
     = Some \<lparr>ID = 1, Title = ''Buy milk'', Description = [], Completed = True, Images = [],
             Subtasks = [doneSubtask]\<rparr>"
    by (simp add: createTodo_doneRequest nx AList.update_conv' newTodo_def firstValue_def
        checkAllSubtasksCompleted_def doneSubtask_def)
  from before after show ?thesis by (simp only: big_def simp_thms)
qed

subsection \<open>C9: the reference of a saved file\<close>

text \<open>
  Claim C9, as amended. When \<open>saveUploadedFile\<close> succeeds for a file whose original name
  contains no path separator, the reference it returns is \<open>uploads/\<close>, the decimal
  numeral of the clock reading in nanoseconds, an underscore and the original name, and
  the original name is read back from the reference as the text after its first
  underscore. (\<open>filepath.Join\<close> cleans the path, so a name with a separator is not kept
  as it is.)
\<close>

theorem saved_file_reference:
  "saveUploadedFile fh w = (Inr ref, w') \<and> CHR ''/'' \<notin> set (Filename fh) \<longrightarrow>
      ref = ''uploads/'' @ formatInt (sint (now (events w (tick w)))) @ ''_'' @ Filename fh \<and>
      originalName ref = Filename fh"
proof (intro conjI impI)
  assume a: "saveUploadedFile fh w = (Inr ref, w') \<and> CHR ''/'' \<notin> set (Filename fh)"
  then have plain: "CHR ''/'' \<notin> set (Filename fh)" by simp
  from a have "ref = savedPath (events w (tick w)) fh"
    by (simp add: saveUploadedFile_eq split: option.splits)
  with plain show r: "ref = ''uploads/'' @ formatInt (sint (now (events w (tick w)))) @ ''_'' @ Filename fh"
    by (simp add: savedPath_plain)
  have "\<And>c. c \<in> set (''uploads/'' @ formatInt (sint (now (events w (tick w))))) \<Longrightarrow>
      c \<noteq> CHR ''_''"
  proof
    fix c assume "c \<in> set (''uploads/'' @ formatInt (sint (now (events w (tick w)))))"
      and "c = CHR ''_''"
    then have "CHR ''_'' \<in> set (formatInt (sint (now (events w (tick w)))))" by simp
    from formatInt_chars [OF this] show False by simp
  qed
  then have "dropWhile (\<lambda>c. c \<noteq> CHR ''_'')
      ((''uploads/'' @ formatInt (sint (now (events w (tick w))))) @ CHR ''_'' # Filename fh)
      = dropWhile (\<lambda>c. c \<noteq> CHR ''_'') (CHR ''_'' # Filename fh)"
    by (rule dropWhile_append2)
  then show "originalName ref = Filename fh"
    by (simp add: r originalName_def)
qed

text \<open>
  The clock reads 1000: the file \<open>a.png\<close> is saved as \<open>uploads/1000_a.png\<close>, from which
  \<open>a.png\<close> is read back.
\<close>

theorem saved_file_reference_witness:
  "fst (saveUploadedFile \<lparr>Filename = ''a.png'', Content = ''x''\<rparr> quietWorld) = Inr ''uploads/1000_a.png''
   \<and> originalName ''uploads/1000_a.png'' = ''a.png''"
proof -
  let ?fh = "\<lparr>Filename = ''a.png'', Content = ''x''\<rparr>"
  let ?sv = "saveUploadedFile ?fh quietWorld"
  note ev = quietWorld_def formatInt_def natDigits.simps digit_def
  have ok: "ioError (events quietWorld (tick quietWorld)) = None"
    by (simp add: quietWorld_def ioError_def)
  have sv: "?sv = (Inr (savedPath (events quietWorld (tick quietWorld)) ?fh), snd ?sv)"
    by (simp add: saveUploadedFile_eq ok)
  have plain: "CHR ''/'' \<notin> set (Filename ?fh)" by simp
  note one = saved_file_reference [where fh = ?fh and w = quietWorld
      and ref = "savedPath (events quietWorld (tick quietWorld)) ?fh" and w' = "snd ?sv",
      THEN mp, OF conjI [OF sv plain]]
  from one have r: "savedPath (events quietWorld (tick quietWorld)) ?fh
        = ''uploads/'' @ formatInt (sint (now (events quietWorld (tick quietWorld)))) @ ''_'' @ Filename ?fh"
    by (rule conjunct1)
  from one have o: "originalName (savedPath (events quietWorld (tick quietWorld)) ?fh) = Filename ?fh"
    by (rule conjunct2)
  from r have r': "savedPath (events quietWorld (tick quietWorld)) ?fh = ''uploads/1000_a.png''"
    by (simp add: ev)
  have "fst ?sv = Inr (savedPath (events quietWorld (tick quietWorld)) ?fh)"
    by (simp add: saveUploadedFile_eq ok)
  with r' have "fst ?sv = Inr ''uploads/1000_a.png''" by (simp only:)
  moreover from o r' have "originalName ''uploads/1000_a.png'' = ''a.png''" by simp
  ultimately show ?thesis by blast
qed

text \<open>
  The claim as stated fails for a name with a separator: the file named \<open>/\<close> is saved,
  at the clock reading 1000, as \<open>uploads/1000_\<close>, which is not \<open>uploads/1000_\<close> followed
  by its name, and from which the name is not read back.
\<close>

theorem saved_file_reference_counterexample:
  "fst (saveUploadedFile \<lparr>Filename = ''/'', Content = ''x''\<rparr> quietWorld) = Inr ''uploads/1000_''
   \<and> ''uploads/1000_'' \<noteq> ''uploads/'' @ ''1000'' @ ''_'' @ ''/''
   \<and> originalName ''uploads/1000_'' \<noteq> ''/''"
  by (simp add: saveUploadedFile_def quietWorld_def Join_def Clean_def Sprintf_d_s_def
      formatInt_def natDigits.simps digit_def originalName_def Let_def)

text \<open>
  Two files of one request with the same name: when the clock reads 5 at both saves, the
  two files named \<open>a.png\<close> of one create are both saved as \<open>uploads/5_a.png\<close>.
\<close>

lemma same_reading_same_reference:
  "Body (fst (createTodo exUnmarshal twoImagesRequest initial stillWorld))
     = TodoJSON \<lparr>ID = 1, Title = [], Description = [], Completed = False,
                 Images = [''uploads/5_a.png'', ''uploads/5_a.png''], Subtasks = []\<rparr>"
  by (simp add: createTodo_def twoImagesRequest_def firstValue_def decodeSubtasks_def
      uploadImages_def saveUploadedFile_def stillWorld_def initial_def
      checkAllSubtasksCompleted_def Join_def Clean_def Sprintf_d_s_def formatInt_def
      natDigits.simps digit_def Let_def)

end
